theory Spec2Isabelle
  imports Main "HOL-Library.Char_ord" "HOL-Library.List_Lexorder" "HOL-Library.Sublist"
    "HOL-Library.AList"
begin

section \<open>Strings, paths and the subtitle path\<close>

text \<open>
  Go strings are byte sequences; they are modelled as \<open>string\<close> (a list of \<open>char\<close>, one
  per byte). The functions of the Go standard library that \<open>subtitlePath\<close> calls are
  written out after the library's own algorithms (packages \<open>strings\<close> and \<open>path\<close>).
\<close>

type_synonym bytes = string
type_synonym path = string
type_synonym error = string

text \<open>
  \<open>strings.Index(s, old)\<close>: the position of the first occurrence of \<open>old\<close> in \<open>s\<close>, Go's
  \<open>-1\<close> being \<open>None\<close>. The empty string occurs at position 0.
\<close>

fun strings_Index :: "string \<Rightarrow> string \<Rightarrow> nat option" where
  "strings_Index [] old = (if old = [] then Some 0 else None)"
| "strings_Index (c # cs) old =
     (if prefix old (c # cs) then Some 0 else map_option Suc (strings_Index cs old))"

text \<open>
  \<open>strings.Replace(s, old, new, 1)\<close>, the only count the program uses: nothing changes when
  \<open>old = new\<close> or \<open>old\<close> does not occur; otherwise the first occurrence is replaced. An
  empty \<open>old\<close> matches at the beginning of the string.
\<close>

definition strings_Replace_1 :: "string \<Rightarrow> string \<Rightarrow> string \<Rightarrow> string" where
  "strings_Replace_1 s old new =
     (if old = new then s
      else case strings_Index s old of
             None \<Rightarrow> s
           | Some j \<Rightarrow> take j s @ new @ drop (j + length old) s)"

text \<open>
  \<open>path.Ext(p)\<close>: scanning from the end and stopping at a slash, the suffix that starts at
  the first dot met; empty when there is none.
\<close>

definition path_Ext :: "string \<Rightarrow> string" where
  "path_Ext p =
     (let t = takeWhile (\<lambda>c. c \<noteq> CHR ''.'' \<and> c \<noteq> CHR ''/'') (rev p)
      in case drop (length t) (rev p) of
           [] \<Rightarrow> []
         | c # _ \<Rightarrow> if c = CHR ''.'' then CHR ''.'' # rev t else [])"

text \<open>
  \<open>path.Clean\<close>. The library keeps an output buffer \<open>out\<close> and an index \<open>dotdot\<close> below
  which the buffer must not be cut back. \<open>backtrack\<close> is its inner loop for a \<open>..\<close>
  element: starting at \<open>w\<close>, move left to the previous slash, not below \<open>dotdot\<close>.
\<close>

function backtrack :: "string \<Rightarrow> nat \<Rightarrow> nat \<Rightarrow> nat" where
  "backtrack out dotdot w =
     (if w > dotdot \<and> out ! w \<noteq> CHR ''/'' then backtrack out dotdot (w - 1) else w)"
  by pat_completeness auto
termination
  by (relation "measure (\<lambda>(out, dotdot, w). w)") auto

declare backtrack.simps [simp del]

function clean_loop :: "bool \<Rightarrow> string \<Rightarrow> nat \<Rightarrow> string \<Rightarrow> string" where
  "clean_loop rooted out dotdot [] = out"
| "clean_loop rooted out dotdot (c # cs) =
     (if c = CHR ''/'' then clean_loop rooted out dotdot cs
      else if c = CHR ''.'' \<and> (cs = [] \<or> hd cs = CHR ''/'') then
        clean_loop rooted out dotdot cs
      else if c = CHR ''.'' \<and> cs \<noteq> [] \<and> hd cs = CHR ''.''
              \<and> (tl cs = [] \<or> hd (tl cs) = CHR ''/'') then
        (if length out > dotdot then
           clean_loop rooted (take (backtrack out dotdot (length out - 1)) out) dotdot (tl cs)
         else if \<not> rooted then
           (let out' = (if length out > 0 then out @ ''/'' else out) @ ''..''
            in clean_loop rooted out' (length out') (tl cs))
         else clean_loop rooted out dotdot (tl cs))
      else
        (let out' = (if rooted \<and> length out \<noteq> 1 \<or> \<not> rooted \<and> length out \<noteq> 0
                     then out @ ''/'' else out)
         in clean_loop rooted (out' @ c # takeWhile (\<lambda>x. x \<noteq> CHR ''/'') cs) dotdot
              (dropWhile (\<lambda>x. x \<noteq> CHR ''/'') cs)))"
     apply pat_completeness
    apply simp
   apply simp
  apply (simp only: prod.inject list.inject)
  done
termination
proof (relation "measure (\<lambda>(rooted, out, dotdot, r). length r)", goal_cases)
  case 1
  show ?case by simp
next
  case (2 rooted out dotdot c cs)
  show ?case by simp
next
  case (3 rooted out dotdot c cs)
  show ?case by simp
next
  case (4 rooted out dotdot c cs)
  show ?case by simp
next
  case (5 rooted out dotdot c cs)
  show ?case by simp
next
  case (6 rooted out dotdot c cs)
  show ?case by simp
next
  case (7 rooted out dotdot c cs)
  have "length (dropWhile (\<lambda>x. x \<noteq> CHR ''/'') cs) \<le> length cs"
    by (rule length_dropWhile_le)
  then have "length (dropWhile (\<lambda>x. x \<noteq> CHR ''/'') cs) < length (c # cs)"
    by simp
  then show ?case by (simp only: in_measure prod.case)
qed

definition path_Clean :: "string \<Rightarrow> string" where
  "path_Clean p =
     (if p = [] then ''.''
      else let rooted = (hd p = CHR ''/'');
               out = (if rooted then clean_loop True ''/'' 1 (tl p)
                      else clean_loop False [] 0 p)
           in if out = [] then ''.'' else out)"

text \<open>
  \<open>path.Join\<close>: the non-empty elements, separated by slashes, then cleaned; the empty
  string when every element is empty.
\<close>

fun join_elems :: "string list \<Rightarrow> string" where
  "join_elems [] = []"
| "join_elems (e # es) =
     (if e = [] then join_elems es
      else if join_elems es = [] then e
      else e @ ''/'' @ join_elems es)"

definition path_Join :: "string list \<Rightarrow> string" where
  "path_Join elem = (if join_elems elem = [] then [] else path_Clean (join_elems elem))"

text \<open>
  \<open>path.Base\<close>: the last element of the path, trailing slashes removed first; \<open>.\<close> for the
  empty path and \<open>/\<close> for a path of slashes only.
\<close>

definition path_Base :: "string \<Rightarrow> string" where
  "path_Base p =
     (if p = [] then ''.''
      else let q = rev (dropWhile (\<lambda>c. c = CHR ''/'') (rev p));
               b = rev (takeWhile (\<lambda>c. c \<noteq> CHR ''/'') (rev q))
           in if b = [] then ''/'' else b)"

text \<open>The function of the program (subtitles.go).\<close>

definition subtitlePath :: "string \<Rightarrow> string \<Rightarrow> string" where
  "subtitlePath dir name =
     path_Join [dir, strings_Replace_1 name (path_Ext name) ''.srt'']"

text \<open>
  The path as the specification words it: the output directory joined with the base name
  of the original filename, its extension replaced by \<open>.srt\<close>. \<open>trimExt\<close> removes the
  extension from the end of a name.
\<close>

definition trimExt :: "string \<Rightarrow> string" where
  "trimExt name = take (length name - length (path_Ext name)) name"

definition spec_subtitlePath :: "string \<Rightarrow> string \<Rightarrow> string" where
  "spec_subtitlePath dir name = path_Join [dir, trimExt (path_Base name) @ ''.srt'']"

section \<open>The subtitle pipeline (package subtitles)\<close>

subsection \<open>Data\<close>

text \<open>
  An \<open>io.Reader\<close> is modelled by what reading it to the end yields: the bytes delivered,
  and the error that ended the reading, if any (\<open>None\<close> is a clean end of file).
\<close>

record Reader =
  delivered :: bytes
  failure :: "error option"

record Input =
  FileName :: string
  Data :: Reader
  Language :: string

text \<open>
  Modelled from the spec: the constants \<open>whisperclient.LanguagePortuguese\<close> and
  \<open>whisperclient.FormatSrt\<close> belong to a package outside the sources. The specification
  names them the (Portuguese) language code and the subtitle-rip output format; they are
  one constructor each of two enumerations that have other values as well.
\<close>

datatype whisper_Language = LanguagePortuguese | LanguageOther string

datatype whisper_Format = FormatSrt | FormatOther string

record ExtractAudioInput =
  SampleRate :: string
  FilePath :: path

record TranscribeAudioInput =
  Name :: string
  Language :: whisper_Language
  Format :: whisper_Format
  Data :: bytes

text \<open>
  The files on disk, by path. The pipeline creates, reads and removes single files, so a
  map from paths to contents is enough here.
\<close>

type_synonym fs = "path \<Rightarrow> bytes option"

text \<open>
  The two collaborators are fields of the \<open>Subtitler\<close>, as in the source. Both are code
  outside the repository and therefore parameters: the audio extractor is any function
  that answers with an error or the path of the audio file and may change the files on
  disk; the transcription client is any function from its input to an error or the
  subtitle bytes. The logger is left out: log lines are not part of the model.
\<close>

record Subtitler =
  sampleRate :: string
  outputDir :: string
  tmpDir :: string
  audioStripper :: "ExtractAudioInput \<Rightarrow> fs \<Rightarrow> (error + path) \<times> fs"
  whisperClient :: "TranscribeAudioInput \<Rightarrow> error + bytes"

text \<open>
  The operating system. \<open>temp_name\<close> is the outcome of the attempts of \<open>os.CreateTemp\<close> for
  a directory, a pattern and the files present: an error, or the path it settles on
  after its retries (the pattern with a random string added). \<open>fault\<close> says whether a
  system call on a path fails for a reason the model does not track (permissions, a full
  disk, a missing directory).
\<close>

datatype syscall = Open | ReadAll | Close | Create | WriteData | Remove

record os =
  temp_name :: "path \<Rightarrow> string \<Rightarrow> fs \<Rightarrow> error + path"
  fault :: "syscall \<Rightarrow> path \<Rightarrow> fs \<Rightarrow> error option"

text \<open>
  The world a run changes: the files, and three records of events that the claims speak
  about: the inputs the transcription client was called with, the files \<open>writeFile\<close>
  wrote completely, and the job lists \<open>GenerateFromAudioData\<close> was invoked with.
\<close>

record world =
  files :: fs
  transcribed :: "TranscribeAudioInput list"
  written :: "(path \<times> bytes) list"
  generated :: "Input list list"

subsection \<open>Operations\<close>

text \<open>\<open>fmt.Errorf("msg: %w", err)\<close>.\<close>

definition errorf :: "string \<Rightarrow> error \<Rightarrow> error" where
  "errorf msg err = msg @ '': '' @ err"

text \<open>
  \<open>os.CreateTemp\<close> refuses a pattern with a path separator; the file it creates is new
  (it opens with \<open>O_EXCL\<close> and tries another random name when the file exists) and
  empty. The library gives up with \<open>ErrExist\<close> when its attempts are exhausted, which is
  the outcome here when the name the attempts settle on is taken.
\<close>

definition os_CreateTemp :: "os \<Rightarrow> path \<Rightarrow> string \<Rightarrow> fs \<Rightarrow> (error + path) \<times> fs" where
  "os_CreateTemp sys dir pattern fs =
     (if CHR ''/'' \<in> set pattern
      then (Inl (''createtemp '' @ pattern @ '': pattern contains path separator''), fs)
      else case temp_name sys dir pattern fs of
             Inl err \<Rightarrow> (Inl err, fs)
           | Inr p \<Rightarrow> (if fs p \<noteq> None
                      then (Inl (''createtemp '' @ dir @ ''/'' @ pattern
                                 @ ''*: file already exists''),
                            fs)
                      else (Inr p, fs(p \<mapsto> []))))"

text \<open>
  \<open>createVideoFile\<close>: \<open>io.Copy\<close> writes what the reader delivers and fails when the reader
  does. A failure to close the file is logged only.
\<close>

definition createVideoFile ::
  "os \<Rightarrow> Subtitler \<Rightarrow> string \<Rightarrow> Reader \<Rightarrow> world \<Rightarrow> (error + path) \<times> world" where
  "createVideoFile sys s name data w =
     (case os_CreateTemp sys (tmpDir s) name (files w) of
        (Inl err, fs1) \<Rightarrow> (Inl (errorf ''could not create video file'' err), w\<lparr>files := fs1\<rparr>)
      | (Inr videoFile, fs1) \<Rightarrow>
          (let w1 = w\<lparr>files := fs1(videoFile \<mapsto> delivered data)\<rparr>
           in case failure data of
                Some err \<Rightarrow> (Inl (errorf ''could not write video file'' err), w1)
              | None \<Rightarrow> (Inr videoFile, w1)))"

definition extractAudio ::
  "Subtitler \<Rightarrow> path \<Rightarrow> string \<Rightarrow> world \<Rightarrow> (error + path) \<times> world" where
  "extractAudio s filepath rate w =
     (case audioStripper s \<lparr>SampleRate = rate, FilePath = filepath\<rparr> (files w) of
        (Inl err, fs1) \<Rightarrow> (Inl (errorf ''could not extract audio'' err), w\<lparr>files := fs1\<rparr>)
      | (Inr res, fs1) \<Rightarrow> (Inr res, w\<lparr>files := fs1\<rparr>))"

definition requestSubtitle ::
  "Subtitler \<Rightarrow> bytes \<Rightarrow> string \<Rightarrow> string \<Rightarrow> world \<Rightarrow> (error + bytes) \<times> world" where
  "requestSubtitle s audioData fileName rate w =
     (let inp = \<lparr>Name = fileName, Language = LanguagePortuguese, Format = FormatSrt,
                  Data = audioData\<rparr>;
          w1 = w\<lparr>transcribed := transcribed w @ [inp]\<rparr>
      in case whisperClient s inp of
           Inl err \<Rightarrow> (Inl (errorf ''could not generate subtitle'' err), w1)
         | Inr subtitleData \<Rightarrow> (Inr subtitleData, w1))"

definition removeFile :: "os \<Rightarrow> path \<Rightarrow> world \<Rightarrow> world" where
  "removeFile sys filePath w =
     (case fault sys Remove filePath (files w) of
        Some err \<Rightarrow> w
      | None \<Rightarrow> (if files w filePath = None then w
                 else w\<lparr>files := (files w)(filePath := None)\<rparr>))"

definition readFile :: "os \<Rightarrow> path \<Rightarrow> world \<Rightarrow> error + bytes" where
  "readFile sys p w =
     (case fault sys Open p (files w) of
        Some err \<Rightarrow> Inl (errorf ''could not open file'' err)
      | None \<Rightarrow>
          (case files w p of
             None \<Rightarrow> Inl (errorf ''could not open file''
                           (''open '' @ p @ '': no such file or directory''))
           | Some data \<Rightarrow>
               (case fault sys ReadAll p (files w) of
                  Some err \<Rightarrow> Inl (errorf ''could not read file'' err)
                | None \<Rightarrow>
                    (case fault sys Close p (files w) of
                       Some err \<Rightarrow> Inl (errorf ''could not close file'' err)
                     | None \<Rightarrow> Inr data))))"

text \<open>
  \<open>writeFile\<close>: \<open>os.Create\<close> creates or truncates the file; the data are in the file once
  \<open>Write\<close> has succeeded, which is when the event is recorded.
\<close>

definition writeFile :: "os \<Rightarrow> path \<Rightarrow> bytes \<Rightarrow> world \<Rightarrow> error option \<times> world" where
  "writeFile sys p data w =
     (case fault sys Create p (files w) of
        Some err \<Rightarrow> (Some (errorf ''could not create file'' err), w)
      | None \<Rightarrow>
          (let w1 = w\<lparr>files := (files w)(p \<mapsto> [])\<rparr>
           in case fault sys WriteData p (files w1) of
                Some err \<Rightarrow> (Some (errorf ''could not write file'' err), w1)
              | None \<Rightarrow>
                  (let w2 = w1\<lparr>files := (files w1)(p \<mapsto> data),
                               written := written w1 @ [(p, data)]\<rparr>
                   in case fault sys Close p (files w2) of
                        Some err \<Rightarrow> (Some (errorf ''could not close file'' err), w2)
                      | None \<Rightarrow> (None, w2))))"

text \<open>
  \<open>processFile\<close>. The channel \<open>errCh\<close> is the list of the errors sent so far. The two
  deferred calls of \<open>removeFile\<close> run when the function returns, the later one first:
  they close the scope each was registered in.
\<close>

definition processFile ::
  "os \<Rightarrow> Subtitler \<Rightarrow> Input \<Rightarrow> world \<Rightarrow> error list \<Rightarrow> world \<times> error list" where
  "processFile sys s inp w errCh =
     (case createVideoFile sys s (FileName inp) (Input.Data inp) w of
        (Inl err, w1) \<Rightarrow> (w1, errCh @ [errorf ''could not create video file'' err])
      | (Inr videoPath, w1) \<Rightarrow>
          (let (w5, errCh1) =
             (case extractAudio s videoPath (sampleRate s) w1 of
                (Inl err, w2) \<Rightarrow> (w2, errCh @ [errorf ''could not extract audio'' err])
              | (Inr audioFilePath, w2) \<Rightarrow>
                  (let (w4, errCh2) =
                     (case readFile sys audioFilePath w2 of
                        Inl err \<Rightarrow> (w2, errCh @ [errorf ''could not read audio file'' err])
                      | Inr audioData \<Rightarrow>
                          (case requestSubtitle s audioData (FileName inp) (sampleRate s) w2 of
                             (Inl err, w3) \<Rightarrow>
                               (w3, errCh @ [errorf ''could not generate subtitle'' err])
                           | (Inr subData, w3) \<Rightarrow>
                               (case writeFile sys (subtitlePath (outputDir s) (FileName inp))
                                       subData w3 of
                                  (Some err, w4) \<Rightarrow>
                                    (w4, errCh @ [errorf ''could not write subtitle file'' err])
                                | (None, w4) \<Rightarrow> (w4, errCh))))
                   in (removeFile sys audioFilePath w4, errCh2)))
           in (removeFile sys videoPath w5, errCh1)))"

text \<open>
  \<open>GenerateFromAudioData\<close> starts one goroutine per job and waits for all of them. The
  model runs the pipelines one after another in the order of the jobs, which is one of
  the schedules the program allows; each pipeline sends at most one error, so the
  channel (of capacity \<open>len(inputs)\<close>) never blocks. After the barrier the channel is
  drained and the last error read is the one returned.
\<close>

definition run_pipelines ::
  "os \<Rightarrow> Subtitler \<Rightarrow> Input list \<Rightarrow> world \<times> error list \<Rightarrow> world \<times> error list" where
  "run_pipelines sys s inputs st = foldl (\<lambda>(w, errCh) inp. processFile sys s inp w errCh) st inputs"

definition GenerateFromAudioData ::
  "os \<Rightarrow> Subtitler \<Rightarrow> Input list \<Rightarrow> world \<Rightarrow> error option \<times> world" where
  "GenerateFromAudioData sys s inputs w =
     (let (w1, errCh) =
            run_pipelines sys s inputs (w\<lparr>generated := generated w @ [inputs]\<rparr>, []);
          err = foldl (\<lambda>err e. Some e) None errCh
      in case err of
           Some e \<Rightarrow> (Some (errorf ''error while processing files'' e), w1)
         | None \<Rightarrow> (None, w1))"

text \<open>
  The stage at which a pipeline fails, read off the results of the stage functions.
\<close>

datatype stage = Materialize | ExtractAudio | ReadAudio | Transcribe | Persist

definition failed_stage :: "os \<Rightarrow> Subtitler \<Rightarrow> Input \<Rightarrow> world \<Rightarrow> stage option" where
  "failed_stage sys s inp w =
     (case createVideoFile sys s (FileName inp) (Input.Data inp) w of
        (Inl err, w1) \<Rightarrow> Some Materialize
      | (Inr videoPath, w1) \<Rightarrow>
          (case extractAudio s videoPath (sampleRate s) w1 of
             (Inl err, w2) \<Rightarrow> Some ExtractAudio
           | (Inr audioFilePath, w2) \<Rightarrow>
               (case readFile sys audioFilePath w2 of
                  Inl err \<Rightarrow> Some ReadAudio
                | Inr audioData \<Rightarrow>
                    (case requestSubtitle s audioData (FileName inp) (sampleRate s) w2 of
                       (Inl err, w3) \<Rightarrow> Some Transcribe
                     | (Inr subData, w3) \<Rightarrow>
                         (case writeFile sys (subtitlePath (outputDir s) (FileName inp))
                                 subData w3 of
                            (Some err, w4) \<Rightarrow> Some Persist
                          | (None, w4) \<Rightarrow> None)))))"

text \<open>
  The outcome of every pipeline of a call, each run in its turn on the world its
  predecessors left.
\<close>

fun stage_outcomes :: "os \<Rightarrow> Subtitler \<Rightarrow> Input list \<Rightarrow> world \<Rightarrow> stage option list" where
  "stage_outcomes sys s [] w = []"
| "stage_outcomes sys s (inp # inps) w =
     failed_stage sys s inp w # stage_outcomes sys s inps (fst (processFile sys s inp w []))"

text \<open>
  The audio bytes a pipeline has in memory after its third stage, when it gets that far.
\<close>

definition audio_in_memory :: "os \<Rightarrow> Subtitler \<Rightarrow> Input \<Rightarrow> world \<Rightarrow> bytes option" where
  "audio_in_memory sys s inp w =
     (case createVideoFile sys s (FileName inp) (Input.Data inp) w of
        (Inl err, w1) \<Rightarrow> None
      | (Inr videoPath, w1) \<Rightarrow>
          (case extractAudio s videoPath (sampleRate s) w1 of
             (Inl err, w2) \<Rightarrow> None
           | (Inr audioFilePath, w2) \<Rightarrow>
               (case readFile sys audioFilePath w2 of
                  Inl err \<Rightarrow> None
                | Inr audioData \<Rightarrow> Some audioData)))"

text \<open>
  The temporary files whose removal a run registers: the video file once
  \<open>createVideoFile\<close> has returned its path, the audio file once the extractor has.
\<close>

definition temp_paths :: "os \<Rightarrow> Subtitler \<Rightarrow> Input \<Rightarrow> world \<Rightarrow> path list" where
  "temp_paths sys s inp w =
     (case createVideoFile sys s (FileName inp) (Input.Data inp) w of
        (Inl err, w1) \<Rightarrow> []
      | (Inr videoPath, w1) \<Rightarrow>
          videoPath #
          (case extractAudio s videoPath (sampleRate s) w1 of
             (Inl err, w2) \<Rightarrow> []
           | (Inr audioFilePath, w2) \<Rightarrow> [audioFilePath]))"

text \<open>The events a run added to those recorded before it.\<close>

definition new_writes :: "world \<Rightarrow> world \<Rightarrow> (path \<times> bytes) list" where
  "new_writes w w' = drop (length (written w)) (written w')"

definition new_calls :: "world \<Rightarrow> world \<Rightarrow> TranscribeAudioInput list" where
  "new_calls w w' = drop (length (transcribed w)) (transcribed w')"

subsection \<open>A sample installation\<close>

text \<open>
  An operating system without faults whose temporary names end in \<open>1\<close>, an extractor that
  writes a \<open>.wav\<close> file beside its input, a client that answers every request with the
  same subtitle, and the configuration of the main program.
\<close>

definition sample_os :: os where
  "sample_os =
     \<lparr>temp_name = (\<lambda>dir pattern fs. Inr (dir @ ''/'' @ pattern @ ''1'')),
      fault = (\<lambda>call p fs. None)\<rparr>"

definition sample_subtitler :: Subtitler where
  "sample_subtitler =
     \<lparr>sampleRate = ''3800'', outputDir = ''subtitles'', tmpDir = ''tmp'',
      audioStripper = (\<lambda>inp fs. (Inr (FilePath inp @ ''.wav''),
                                  fs(FilePath inp @ ''.wav'' \<mapsto> ''RIFF''))),
      whisperClient = (\<lambda>inp. Inr ''1 ola'')\<rparr>"

text \<open>The same installation with a transcription client that refuses every request.\<close>

definition deaf_subtitler :: Subtitler where
  "deaf_subtitler = sample_subtitler\<lparr>whisperClient := (\<lambda>inp. Inl ''status 503'')\<rparr>"

definition empty_world :: world where
  "empty_world = \<lparr>files = Map.empty, transcribed = [], written = [], generated = []\<rparr>"

text \<open>
  The outcomes of the pipelines of one call of \<open>GenerateFromAudioData\<close>, which records
  its invocation before it starts them.
\<close>

definition pipeline_outcomes :: "os \<Rightarrow> Subtitler \<Rightarrow> Input list \<Rightarrow> world \<Rightarrow> stage option list" where
  "pipeline_outcomes sys s inputs w =
     stage_outcomes sys s inputs (w\<lparr>generated := generated w @ [inputs]\<rparr>)"

text \<open>
  Two jobs: one whose reader delivers three bytes and ends, and one whose reader fails
  after three bytes.
\<close>

definition sample_job :: "string \<Rightarrow> Input" where
  "sample_job name =
     \<lparr>FileName = name, Data = \<lparr>delivered = ''abc'', failure = None\<rparr>, Language = ''pt''\<rparr>"

definition broken_job :: Input where
  "broken_job =
     \<lparr>FileName = ''a.mp4'',
      Data = \<lparr>delivered = ''abc'', failure = Some ''unexpected EOF''\<rparr>,
      Language = ''pt''\<rparr>"

section \<open>The HTTP handlers (package web)\<close>

subsection \<open>The response\<close>

text \<open>
  The body of a response is the sequence of the writes made to it. A write is kept as
  what was written, not as its bytes: a line of text, a JSON value, a zip archive (its
  entries, name and content, in order) or the content of the file at a path.
\<close>

datatype json = JNull | JString string | JArray "json list" | JObject "(string \<times> json) list"

datatype chunk =
    Text string
  | Json json
  | ZipArchive "(string \<times> bytes) list"
  | ServedFile path

text \<open>
  An \<open>http.ResponseWriter\<close>: the header map of the handler, the status code and the
  headers sent with it once the header has been written, and the body.
\<close>

record ResponseWriter =
  Header :: "(string \<times> string) list"
  wroteHeader :: "(nat \<times> (string \<times> string) list) option"
  body :: "chunk list"

definition new_ResponseWriter :: ResponseWriter where
  "new_ResponseWriter = \<lparr>Header = [], wroteHeader = None, body = []\<rparr>"

definition Header_Set :: "string \<Rightarrow> string \<Rightarrow> ResponseWriter \<Rightarrow> ResponseWriter" where
  "Header_Set k v w = w\<lparr>Header := AList.update k v (Header w)\<rparr>"

definition WriteHeader :: "nat \<Rightarrow> ResponseWriter \<Rightarrow> ResponseWriter" where
  "WriteHeader code w =
     (if wroteHeader w = None then w\<lparr>wroteHeader := Some (code, Header w)\<rparr> else w)"

text \<open>A write sends the header with status 200 first when none was sent before.\<close>

definition Write_chunk :: "chunk \<Rightarrow> ResponseWriter \<Rightarrow> ResponseWriter" where
  "Write_chunk c w = (let w1 = WriteHeader 200 w in w1\<lparr>body := body w1 @ [c]\<rparr>)"

definition http_Error :: "string \<Rightarrow> nat \<Rightarrow> ResponseWriter \<Rightarrow> ResponseWriter" where
  "http_Error msg code w =
     Write_chunk (Text msg)
       (WriteHeader code
          (Header_Set ''X-Content-Type-Options'' ''nosniff''
             (Header_Set ''Content-Type'' ''text/plain; charset=utf-8'' w)))"

text \<open>The method \<open>e\<close> of the handlers logs and answers with \<open>http.Error\<close>.\<close>

definition e :: "ResponseWriter \<Rightarrow> string \<Rightarrow> nat \<Rightarrow> ResponseWriter" where
  "e w message statusCode = http_Error message statusCode w"

text \<open>
  What the client receives: the status and headers sent, or, when the handler returned
  without writing, status 200 with the headers set so far; and the body.
\<close>

definition response :: "ResponseWriter \<Rightarrow> nat \<times> (string \<times> string) list \<times> chunk list" where
  "response w =
     (case wroteHeader w of
        None \<Rightarrow> (200, Header w, body w)
      | Some (code, hdr) \<Rightarrow> (code, hdr, body w))"

subsection \<open>The upload handler\<close>

text \<open>
  A multipart request body: whether it parses at all, and its parts. A part with an
  empty file name is a form value, any other part is a file. \<open>Part.FileName\<close> hands out
  the last element of the file name the part declares (\<open>filepath.Base\<close>).
\<close>

record Part =
  FormName :: string
  PartFileName :: string
  Content :: bytes

record Request =
  malformed :: "error option"
  parts :: "Part list"

definition Part_FileName :: "Part \<Rightarrow> string" where
  "Part_FileName p = (if PartFileName p = [] then [] else path_Base (PartFileName p))"

datatype FileStore = InMemory bytes | OnDisk path

record FileHeader =
  Filename :: string
  store :: FileStore

definition maxFileSize :: int where
  "maxFileSize = 2 ^ 30"

text \<open>
  \<open>Request.ParseMultipartForm(maxMemory)\<close>, after the documentation of \<open>net/http\<close> and
  \<open>mime/multipart\<close>: the whole body is parsed; file parts are kept in memory up to a total
  of \<open>maxMemory\<close> bytes and the others are stored on disk in temporary files; form values
  may take \<open>maxMemory\<close> bytes and ten megabytes more, beyond which the parse fails with
  \<open>ErrMessageTooLarge\<close>. The library's further limits on the number of parts and on the
  size of their headers are not modelled. The result lists the file parts with their
  form names, in order.
\<close>

fun readForm ::
  "os \<Rightarrow> Part list \<Rightarrow> int \<Rightarrow> int \<Rightarrow> fs \<Rightarrow> (error + (string \<times> FileHeader) list) \<times> fs" where
  "readForm sys [] maxValueBytes maxFileMemoryBytes fs = (Inr [], fs)"
| "readForm sys (p # ps) maxValueBytes maxFileMemoryBytes fs =
     (if FormName p = [] then readForm sys ps maxValueBytes maxFileMemoryBytes fs
      else if Part_FileName p = [] then
        (if maxValueBytes - int (length (Content p)) < 0
         then (Inl ''multipart: message too large'', fs)
         else readForm sys ps (maxValueBytes - int (length (Content p))) maxFileMemoryBytes fs)
      else if int (length (Content p)) > maxFileMemoryBytes then
        (case os_CreateTemp sys [] ''multipart-'' fs of
           (Inl err, fs1) \<Rightarrow> (Inl err, fs1)
         | (Inr tmp, fs1) \<Rightarrow>
             (case readForm sys ps maxValueBytes maxFileMemoryBytes (fs1(tmp \<mapsto> Content p)) of
                (Inl err, fs2) \<Rightarrow> (Inl err, fs2)
              | (Inr form, fs2) \<Rightarrow>
                  (Inr ((FormName p, \<lparr>Filename = Part_FileName p, store = OnDisk tmp\<rparr>) # form),
                   fs2)))
      else
        (case readForm sys ps (maxValueBytes - int (length (Content p)))
                (maxFileMemoryBytes - int (length (Content p))) fs of
           (Inl err, fs2) \<Rightarrow> (Inl err, fs2)
         | (Inr form, fs2) \<Rightarrow>
             (Inr ((FormName p, \<lparr>Filename = Part_FileName p, store = InMemory (Content p)\<rparr>)
                   # form),
              fs2)))"

definition ParseMultipartForm ::
  "os \<Rightarrow> int \<Rightarrow> Request \<Rightarrow> world \<Rightarrow> (error + (string \<times> FileHeader) list) \<times> world" where
  "ParseMultipartForm sys maxMemory r w =
     (case malformed r of
        Some err \<Rightarrow> (Inl err, w)
      | None \<Rightarrow>
          (case readForm sys (parts r) (maxMemory + 10 * 2 ^ 20) maxMemory (files w) of
             (res, fs1) \<Rightarrow> (res, w\<lparr>files := fs1\<rparr>)))"

text \<open>\<open>r.MultipartForm.File[key]\<close>.\<close>

definition form_File :: "(string \<times> FileHeader) list \<Rightarrow> string \<Rightarrow> FileHeader list" where
  "form_File form key = map snd (filter (\<lambda>(k, fh). k = key) form)"

text \<open>
  \<open>FileHeader.Open\<close>: a reader of the bytes kept in memory, or of the temporary file.
\<close>

definition FileHeader_Open :: "os \<Rightarrow> FileHeader \<Rightarrow> world \<Rightarrow> error + Reader" where
  "FileHeader_Open sys fh w =
     (case store fh of
        InMemory b \<Rightarrow> Inr \<lparr>delivered = b, failure = None\<rparr>
      | OnDisk p \<Rightarrow>
          (case fault sys Open p (files w) of
             Some err \<Rightarrow> Inl err
           | None \<Rightarrow>
               (case files w p of
                  None \<Rightarrow> Inl (''open '' @ p @ '': no such file or directory'')
                | Some b \<Rightarrow> Inr \<lparr>delivered = b, failure = None\<rparr>)))"

text \<open>The loop of the handler over the file headers; it stops at the first failure.\<close>

fun open_inputs :: "os \<Rightarrow> FileHeader list \<Rightarrow> world \<Rightarrow> error + Input list" where
  "open_inputs sys [] w = Inr []"
| "open_inputs sys (header # headers) w =
     (case FileHeader_Open sys header w of
        Inl err \<Rightarrow> Inl err
      | Inr uploadedFile \<Rightarrow>
          (case open_inputs sys headers w of
             Inl err \<Rightarrow> Inl err
           | Inr genSubtitleInput \<Rightarrow>
               Inr (\<lparr>FileName = Filename header, Data = uploadedFile, Language = ''pt''\<rparr>
                    # genSubtitleInput)))"

definition createSubtitles ::
  "os \<Rightarrow> Subtitler \<Rightarrow> Request \<Rightarrow> world \<Rightarrow> ResponseWriter \<Rightarrow> ResponseWriter \<times> world" where
  "createSubtitles sys s r wld w =
     (case ParseMultipartForm sys maxFileSize r wld of
        (Inl err, wld1) \<Rightarrow> (e w ''Failed to parse the request'' 400, wld1)
      | (Inr form, wld1) \<Rightarrow>
          (if form_File form ''file'' = [] then (e w ''No file part in request'' 400, wld1)
           else case open_inputs sys (form_File form ''file'') wld1 of
                  Inl err \<Rightarrow> (e w ''Failed to open the uploaded file'' 500, wld1)
                | Inr genSubtitleInput \<Rightarrow>
                    (case GenerateFromAudioData sys s genSubtitleInput wld1 of
                       (Some err, wld2) \<Rightarrow> (e w ''Failed to generate subtitles'' 500, wld2)
                     | (None, wld2) \<Rightarrow>
                         (Write_chunk
                            (Json (JObject [(''message'',
                                             JString ''Subtitles generated successfully'')]))
                            (Header_Set ''Content-Type'' ''application/json'' w),
                          wld2))))"

text \<open>
  The size of a request body is at least the size of the contents of its parts.
\<close>

definition content_size :: "Request \<Rightarrow> nat" where
  "content_size r = sum_list (map (\<lambda>p. length (Content p)) (parts r))"

text \<open>
  A request with one file part under the field name \<open>file\<close>, and a body of one byte more
  than a gibibyte.
\<close>

definition upload_of :: "string \<Rightarrow> bytes \<Rightarrow> Request" where
  "upload_of name content =
     \<lparr>malformed = None,
      parts = [\<lparr>FormName = ''file'', PartFileName = name, Content = content\<rparr>]\<rparr>"

definition big_content :: bytes where
  "big_content = replicate (2 ^ 30 + 1) (CHR ''v'')"

subsection \<open>The output directory\<close>

text \<open>
  What opening and reading an entry that is not a directory gives: its bytes; a failure
  to open it (a dangling symbolic link, a file that may not be read); or a failure while
  reading, after some bytes (a symbolic link to a directory opens and fails at the first
  read).
\<close>

datatype contents = Readable bytes | OpenFails error | ReadFails bytes error

text \<open>
  A directory entry, by its own type (\<open>DirEntry.IsDir\<close>, which does not follow symbolic
  links). \<open>File\<close> is an entry that is not a directory: a regular file, a symbolic link
  whatever it points to, a device; it has a name and contents. \<open>Dir\<close> is a directory with
  its name and its entries, in the order the operating system happens to return them.
  \<open>LockedDir\<close> is a directory whose entries cannot be read, with its name, the error of
  reading it, and whether it is empty.
\<close>

datatype entry = File string contents | Dir string "entry list" | LockedDir string error bool

fun entry_Name :: "entry \<Rightarrow> string" where
  "entry_Name (File n c) = n"
| "entry_Name (Dir n es) = n"
| "entry_Name (LockedDir n err emp) = n"

fun IsDir :: "entry \<Rightarrow> bool" where
  "IsDir (File n c) = False"
| "IsDir (Dir n es) = True"
| "IsDir (LockedDir n err emp) = True"

definition subtitlesDir :: string where
  "subtitlesDir = ''subtitles''"

text \<open>
  \<open>filepath.WalkDir\<close>, after the library: the function is called for the entry itself;
  for a directory the entries are then read, sorted by name (\<open>os.ReadDir\<close>), and walked
  in that order, each under the path of the directory joined with its name. The first
  error the function returns ends the walk (the handlers never return \<open>SkipDir\<close>). When
  reading the directory fails, the function is called a second time for it, with the
  error; the functions of the handlers answer an error with an error, which ends the
  walk. Reading fails for a directory whose entries cannot be read, and for a directory
  that the walk itself has removed: \<open>readDirErr\<close> says, for the state the walk has
  reached, whether the directory at a path is gone.
\<close>

type_synonym 'st WalkDirFunc = "path \<Rightarrow> entry option \<Rightarrow> error option \<Rightarrow> 'st \<Rightarrow> error option \<times> 'st"

fun walkDir ::
  "('st \<Rightarrow> path \<Rightarrow> error option) \<Rightarrow> 'st WalkDirFunc \<Rightarrow> path \<Rightarrow> entry \<Rightarrow> 'st
     \<Rightarrow> error option \<times> 'st" where
  "walkDir readDirErr fn p (File n c) st = fn p (Some (File n c)) None st"
| "walkDir readDirErr fn p (LockedDir n err emp) st =
     (case fn p (Some (LockedDir n err emp)) None st of
        (Some er, st1) \<Rightarrow> (Some er, st1)
      | (None, st1) \<Rightarrow>
          (case readDirErr st1 p of
             Some er \<Rightarrow> fn p (Some (LockedDir n err emp)) (Some er) st1
           | None \<Rightarrow> fn p (Some (LockedDir n err emp)) (Some err) st1))"
| "walkDir readDirErr fn p (Dir n es) st =
     (case fn p (Some (Dir n es)) None st of
        (Some er, st1) \<Rightarrow> (Some er, st1)
      | (None, st1) \<Rightarrow>
          (case readDirErr st1 p of
             Some er \<Rightarrow> fn p (Some (Dir n es)) (Some er) st1
           | None \<Rightarrow>
               foldl (\<lambda>acc d1. case fst acc of
                                  Some er \<Rightarrow> acc
                                | None \<Rightarrow> walkDir readDirErr fn (p @ ''/'' @ entry_Name d1) d1
                                            (snd acc))
                 (None, st1) (sort_key entry_Name es)))"

text \<open>
  The root is looked up first (\<open>os.Lstat\<close>); when that fails the function is called once,
  with the error and no entry.
\<close>

definition filepath_WalkDir ::
  "('st \<Rightarrow> path \<Rightarrow> error option) \<Rightarrow> 'st WalkDirFunc \<Rightarrow> path \<Rightarrow> entry option \<Rightarrow> 'st
     \<Rightarrow> error option \<times> 'st" where
  "filepath_WalkDir readDirErr fn root tree st =
     (case tree of
        None \<Rightarrow> fn root None (Some (''lstat '' @ root @ '': no such file or directory'')) st
      | Some t \<Rightarrow> walkDir readDirErr fn root t st)"

text \<open>
  The walks of the list, fetch and archive handlers remove nothing: a directory they
  have found is still there when they read it.
\<close>

definition readDir_ok :: "'st \<Rightarrow> path \<Rightarrow> error option" where
  "readDir_ok st p = None"

subsection \<open>The list handler\<close>

text \<open>
  The handler does not return after the answer to a failed walk, so the JSON value is
  written in every case; encoding it into the response is taken to succeed.
  \<open>listResp.Subtitles\<close> is a Go slice: \<open>None\<close> is the nil slice, which \<open>append\<close> turns into
  a slice and which JSON encodes as \<open>null\<close>. The functions passed to the walk test the
  error before they touch the entry; the entry is absent only together with an error.
\<close>

definition append_name :: "string list option \<Rightarrow> string \<Rightarrow> string list option" where
  "append_name slice x = (case slice of None \<Rightarrow> Some [x] | Some xs \<Rightarrow> Some (xs @ [x]))"

definition list_fn :: "string list option WalkDirFunc" where
  "list_fn filePath file err subs =
     (case err of
        Some er \<Rightarrow> (Some (errorf ''could not walk in the directory'' er), subs)
      | None \<Rightarrow>
          (case file of
             None \<Rightarrow> (Some ''nil pointer dereference'', subs)
           | Some f \<Rightarrow>
               (if IsDir f then (None, subs)
                else if path_Ext (entry_Name f) \<noteq> ''.srt'' then (None, subs)
                else (None, append_name subs (path_Base filePath)))))"

definition listSubtitles :: "entry option \<Rightarrow> ResponseWriter \<Rightarrow> ResponseWriter" where
  "listSubtitles tree w =
     (case filepath_WalkDir readDir_ok list_fn subtitlesDir tree None of
        (err, subs) \<Rightarrow>
          (let w1 = (case err of
                       Some er \<Rightarrow> e w ''Failed to compile zip file'' 500
                     | None \<Rightarrow> w);
               w2 = Header_Set ''Content-Type'' ''application/json'' w1
           in Write_chunk
                (Json (JObject [(''subtitles'',
                                 case subs of
                                   None \<Rightarrow> JNull
                                 | Some names \<Rightarrow> JArray (map JString names))]))
                w2))"

subsection \<open>The fetch handler\<close>

text \<open>
  What the handler reads of the request: the path and the query of its URL, and the
  route parameter \<open>name\<close>.
\<close>

record GetRequest =
  URL_Path :: string
  RawQuery :: string
  URLParam_name :: string

text \<open>
  \<open>strings.FieldsFunc\<close>: the maximal runs of characters that are not separators.
\<close>

fun fields_from :: "(char \<Rightarrow> bool) \<Rightarrow> string \<Rightarrow> string \<Rightarrow> string list" where
  "fields_from sep cur [] = (if cur = [] then [] else [cur])"
| "fields_from sep cur (c # cs) =
     (if sep c then (if cur = [] then fields_from sep [] cs else cur # fields_from sep [] cs)
      else fields_from sep (cur @ [c]) cs)"

definition strings_FieldsFunc :: "string \<Rightarrow> (char \<Rightarrow> bool) \<Rightarrow> string list" where
  "strings_FieldsFunc s sep = fields_from sep [] s"

definition isSlashRune :: "char \<Rightarrow> bool" where
  "isSlashRune r = (r = CHR ''/'' \<or> r = CHR 0x5C)"

definition containsDotDot :: "string \<Rightarrow> bool" where
  "containsDotDot v = (''..'' \<in> set (strings_FieldsFunc v isSlashRune))"

text \<open>
  \<open>localRedirect\<close> of \<open>net/http\<close>: the header \<open>Location\<close> and status 301, without a body.
\<close>

definition localRedirect :: "GetRequest \<Rightarrow> string \<Rightarrow> ResponseWriter \<Rightarrow> ResponseWriter" where
  "localRedirect r newPath w =
     WriteHeader 301
       (Header_Set ''Location''
          (if RawQuery r = [] then newPath else newPath @ ''?'' @ RawQuery r) w)"

text \<open>
  \<open>http.ServeFile\<close>, after the library: a URL path with a \<open>..\<close> element is refused; a URL
  path that ends in \<open>/index.html\<close> is redirected to \<open>./\<close>; a directory that can be opened
  is redirected to its URL with a slash added when the URL path does not end in one.
  What the library answers in the remaining cases (the content with status 200, a part
  of it, 304, 404 or 403 when the file cannot be opened, a directory listing) depends on
  the headers of the request and on the file; it is the parameter \<open>library\<close>.
\<close>

type_synonym serveContent = "path \<Rightarrow> entry \<Rightarrow> ResponseWriter \<Rightarrow> ResponseWriter"

definition http_ServeFile ::
  "serveContent \<Rightarrow> GetRequest \<Rightarrow> path \<Rightarrow> entry \<Rightarrow> ResponseWriter \<Rightarrow> ResponseWriter" where
  "http_ServeFile library r name f w =
     (if containsDotDot (URL_Path r) then http_Error ''invalid URL path'' 400 w
      else if suffix ''/index.html'' (URL_Path r) then localRedirect r ''./'' w
      else case f of
             Dir n es \<Rightarrow>
               (if URL_Path r = [] \<or> last (URL_Path r) \<noteq> CHR ''/''
                then localRedirect r (path_Base (URL_Path r) @ ''/'') w
                else library name f w)
           | _ \<Rightarrow> library name f w)"

definition fetch_fn :: "serveContent \<Rightarrow> GetRequest \<Rightarrow> ResponseWriter WalkDirFunc" where
  "fetch_fn library r filePath file err w =
     (case err of
        Some er \<Rightarrow> (Some (errorf ''could not walk in the directory'' er), w)
      | None \<Rightarrow>
          (case file of
             None \<Rightarrow> (Some ''nil pointer dereference'', w)
           | Some f \<Rightarrow>
               (if entry_Name f = URLParam_name r then
                  (None,
                   http_ServeFile library r filePath f
                     (Header_Set ''Content-Disposition''
                        (''attachment; filename='' @ URLParam_name r)
                        (Header_Set ''Content-Type'' ''application/x-subrip'' w)))
                else (None, w))))"

definition subtitleFile ::
  "serveContent \<Rightarrow> GetRequest \<Rightarrow> entry option \<Rightarrow> ResponseWriter \<Rightarrow> ResponseWriter" where
  "subtitleFile library r tree w =
     (case filepath_WalkDir readDir_ok (fetch_fn library r) subtitlesDir tree w of
        (Some er, w1) \<Rightarrow> e w1 ''Failed to compile zip file'' 500
      | (None, w1) \<Rightarrow> w1)"

subsection \<open>The delete handler\<close>

text \<open>
  The walk of the delete handler changes the directory it walks. Its state is the list of
  the paths removed so far. \<open>os.Remove\<close> removes an entry that is not a directory, or an
  empty directory; when the function is called for a directory nothing below it has been
  removed yet, so the directory is empty exactly when it was at the start. Reading a
  directory that has just been removed fails.
\<close>

definition os_Remove_entry :: "entry \<Rightarrow> error option" where
  "os_Remove_entry f =
     (case f of
        File n c \<Rightarrow> None
      | Dir n es \<Rightarrow> (if es = [] then None else Some ''directory not empty'')
      | LockedDir n err emp \<Rightarrow> (if emp then None else Some ''directory not empty''))"

definition delete_fn :: "string \<Rightarrow> path list WalkDirFunc" where
  "delete_fn subName filePath file err removed =
     (case err of
        Some er \<Rightarrow> (Some (errorf ''could not walk in the directory'' er), removed)
      | None \<Rightarrow>
          (case file of
             None \<Rightarrow> (Some ''nil pointer dereference'', removed)
           | Some f \<Rightarrow>
               (if entry_Name f = subName then
                  (case os_Remove_entry f of
                     Some er \<Rightarrow> (Some (errorf ''could not remove subtitle'' er), removed)
                   | None \<Rightarrow> (None, removed @ [filePath]))
                else (None, removed))))"

definition readDir_removed :: "path list \<Rightarrow> path \<Rightarrow> error option" where
  "readDir_removed removed p =
     (if p \<in> set removed then Some (''open '' @ p @ '': no such file or directory'') else None)"

text \<open>The directory without the entries at the removed paths.\<close>

fun prune :: "path list \<Rightarrow> path \<Rightarrow> entry \<Rightarrow> entry list" where
  "prune removed p (File n c) = (if p \<in> set removed then [] else [File n c])"
| "prune removed p (LockedDir n err emp) =
     (if p \<in> set removed then [] else [LockedDir n err emp])"
| "prune removed p (Dir n es) =
     (if p \<in> set removed then []
      else [Dir n (concat (map (\<lambda>d. prune removed (p @ ''/'' @ entry_Name d) d) es))])"

definition after_removal :: "path list \<Rightarrow> entry option \<Rightarrow> entry option" where
  "after_removal removed tree =
     (case tree of
        None \<Rightarrow> None
      | Some t \<Rightarrow> (case prune removed subtitlesDir t of [] \<Rightarrow> None | t' # ts \<Rightarrow> Some t'))"

definition deleteSubtitle ::
  "string \<Rightarrow> entry option \<Rightarrow> ResponseWriter \<Rightarrow> ResponseWriter \<times> entry option" where
  "deleteSubtitle subName tree w =
     (case filepath_WalkDir readDir_removed (delete_fn subName) subtitlesDir tree [] of
        (Some er, removed) \<Rightarrow>
          (e w ''Failed to compile zip file'' 500, after_removal removed tree)
      | (None, removed) \<Rightarrow> (w, after_removal removed tree))"

subsection \<open>The archive handler\<close>

text \<open>
  The zip writer is the list of the entries created, each with the bytes copied into it.
  It writes into a buffer in memory: \<open>Create\<close> fails only for a name that does not fit the
  header of an entry (more than 65535 bytes), and closing the writer does not fail. An
  entry is created before the file is opened, so that it stays in the archive, empty or
  with the bytes copied so far, when opening or copying the file fails; what the buffer
  holds after a failed \<open>Create\<close> is not modelled. The handler does not return after the
  answer to a failed walk: the archive follows.
\<close>

definition zip_Create :: "string \<Rightarrow> error option" where
  "zip_Create name =
     (if length name > 65535 then Some ''zip: FileHeader.Name too long'' else None)"

text \<open>
  \<open>os.Open\<close> of an entry for reading, and \<open>io.Copy\<close> from it: the bytes delivered and the
  error that ended the copy, if any.
\<close>

definition os_Open :: "entry \<Rightarrow> error option" where
  "os_Open f =
     (case f of
        File n (OpenFails err) \<Rightarrow> Some err
      | LockedDir n err emp \<Rightarrow> Some err
      | _ \<Rightarrow> None)"

definition io_Copy :: "entry \<Rightarrow> bytes \<times> error option" where
  "io_Copy f =
     (case f of
        File n (Readable b) \<Rightarrow> (b, None)
      | File n (ReadFails b err) \<Rightarrow> (b, Some err)
      | File n (OpenFails err) \<Rightarrow> ([], Some err)
      | _ \<Rightarrow> ([], Some ''is a directory''))"

definition zip_fn :: "(string \<times> bytes) list WalkDirFunc" where
  "zip_fn filePath file err zipWritter =
     (case err of
        Some er \<Rightarrow> (Some (errorf ''could not walk in the directory'' er), zipWritter)
      | None \<Rightarrow>
          (case file of
             None \<Rightarrow> (Some ''nil pointer dereference'', zipWritter)
           | Some f \<Rightarrow>
               (if IsDir f then (None, zipWritter)
                else if path_Ext (entry_Name f) \<noteq> ''.srt'' then (None, zipWritter)
                else
                  (case zip_Create (path_Base filePath) of
                     Some er \<Rightarrow> (Some (errorf ''could not create zip entry'' er), zipWritter)
                   | None \<Rightarrow>
                       (case os_Open f of
                          Some er \<Rightarrow>
                            (Some (errorf ''could not open file'' er),
                             zipWritter @ [(path_Base filePath, [])])
                        | None \<Rightarrow>
                            (case io_Copy f of
                               (b, Some er) \<Rightarrow>
                                 (Some (errorf ''could not copy data'' er),
                                  zipWritter @ [(path_Base filePath, b)])
                             | (b, None) \<Rightarrow>
                                 (None, zipWritter @ [(path_Base filePath, b)])))))))"

definition subtitlesZip :: "entry option \<Rightarrow> ResponseWriter \<Rightarrow> ResponseWriter" where
  "subtitlesZip tree w =
     (case filepath_WalkDir readDir_ok zip_fn subtitlesDir tree [] of
        (err, zipWritter) \<Rightarrow>
          (let w1 = (case err of
                       Some er \<Rightarrow> e w ''Failed to compile zip file'' 500
                     | None \<Rightarrow> w);
               w2 = Header_Set ''Content-Type'' ''application/zip'' w1;
               w3 = Header_Set ''Content-Disposition'' ''attachment; filename=legendas.zip'' w2
           in Write_chunk (ZipArchive zipWritter) w3))"

subsection \<open>Describing a directory\<close>

text \<open>
  File names are not empty and contain no slash, and the names in one directory differ.
\<close>

definition valid_name :: "string \<Rightarrow> bool" where
  "valid_name n = (n \<noteq> [] \<and> CHR ''/'' \<notin> set n)"

fun valid :: "entry \<Rightarrow> bool" where
  "valid (File n c) = valid_name n"
| "valid (LockedDir n err emp) = valid_name n"
| "valid (Dir n es) =
     (valid_name n \<and> distinct (map entry_Name es) \<and> list_all valid es)"

text \<open>
  The entries of a directory tree that a walk reaches, with their paths, in the order of
  the walk: it does not get below a directory that cannot be read.
\<close>

fun walk :: "path \<Rightarrow> entry \<Rightarrow> (path \<times> entry) list" where
  "walk p (File n c) = [(p, File n c)]"
| "walk p (LockedDir n err emp) = [(p, LockedDir n err emp)]"
| "walk p (Dir n es) =
     (p, Dir n es) #
     concat (map (\<lambda>d. walk (p @ ''/'' @ entry_Name d) d) (sort_key entry_Name es))"

text \<open>
  The leaves of the walk, in its order: the entries that are not directories and the
  directories that cannot be read.
\<close>

fun leaves :: "entry \<Rightarrow> entry list" where
  "leaves (File n c) = [File n c]"
| "leaves (LockedDir n err emp) = [LockedDir n err emp]"
| "leaves (Dir n es) = concat (map leaves (sort_key entry_Name es))"

fun is_leaf :: "entry \<Rightarrow> bool" where
  "is_leaf (File n c) = True"
| "is_leaf (LockedDir n err emp) = True"
| "is_leaf (Dir n es) = False"

text \<open>
  The entries that are not directories and have the extension \<open>.srt\<close>, at any depth, in
  the order of the walk.
\<close>

definition is_srt :: "entry \<Rightarrow> bool" where
  "is_srt f = (\<not> IsDir f \<and> path_Ext (entry_Name f) = ''.srt'')"

definition srt_files :: "entry \<Rightarrow> entry list" where
  "srt_files t = filter is_srt (leaves t)"

text \<open>
  A tree is readable when every directory the walk reaches can be read. It can be
  archived when, moreover, every entry with the extension \<open>.srt\<close> has a name that fits a
  zip header and can be opened and read to its end.
\<close>

definition readable :: "entry \<Rightarrow> bool" where
  "readable t = list_all (\<lambda>f. \<not> IsDir f) (leaves t)"

definition can_archive :: "entry \<Rightarrow> bool" where
  "can_archive f =
     (\<not> IsDir f \<and>
      (path_Ext (entry_Name f) = ''.srt'' \<longrightarrow>
         zip_Create (entry_Name f) = None \<and> os_Open f = None \<and> snd (io_Copy f) = None))"

definition archivable :: "entry \<Rightarrow> bool" where
  "archivable t = list_all can_archive (leaves t)"

text \<open>The bytes that reading an entry delivers.\<close>

definition entry_Data :: "entry \<Rightarrow> bytes" where
  "entry_Data f = fst (io_Copy f)"

text \<open>
  The output directory with the entries \<open>es\<close>, and the names a scan of the entries located
  directly in it would list.
\<close>

definition output_dir :: "entry list \<Rightarrow> entry option" where
  "output_dir es = Some (Dir subtitlesDir es)"

definition direct_srt_names :: "entry list \<Rightarrow> string list" where
  "direct_srt_names es = map entry_Name (filter is_srt (sort_key entry_Name es))"

text \<open>The JSON value that lists names.\<close>

definition subtitles_json :: "string list \<Rightarrow> json" where
  "subtitles_json names =
     JObject [(''subtitles'', if names = [] then JNull else JArray (map JString names))]"

text \<open>The names of all entries of a tree, the root included, and of a list of trees.\<close>

fun all_names :: "entry \<Rightarrow> string list" where
  "all_names (File n c) = [n]"
| "all_names (LockedDir n err emp) = [n]"
| "all_names (Dir n es) = n # concat (map all_names es)"

definition names_in :: "entry list \<Rightarrow> string list" where
  "names_in es = concat (map all_names es)"

text \<open>The contents of a Go slice of strings.\<close>

definition names_of :: "string list option \<Rightarrow> string list" where
  "names_of slice = (case slice of None \<Rightarrow> [] | Some xs \<Rightarrow> xs)"

subsection \<open>A walk as the sequence of its calls\<close>

text \<open>
  The calls a complete walk makes of its function, in order: one for every entry it
  reaches, and a second one, with the error, for a directory that cannot be read. \<open>run\<close>
  makes the calls one after another until one returns an error.
\<close>

type_synonym event = "path \<times> entry \<times> error option"

fun events :: "path \<Rightarrow> entry \<Rightarrow> event list" where
  "events p (File n c) = [(p, File n c, None)]"
| "events p (LockedDir n err emp) =
     [(p, LockedDir n err emp, None), (p, LockedDir n err emp, Some err)]"
| "events p (Dir n es) =
     (p, Dir n es, None) #
     concat (map (\<lambda>d. events (p @ ''/'' @ entry_Name d) d) (sort_key entry_Name es))"

fun run :: "'st WalkDirFunc \<Rightarrow> 'st \<Rightarrow> event list \<Rightarrow> error option \<times> 'st" where
  "run fn st [] = (None, st)"
| "run fn st ((p, f, r) # evs) =
     (case fn p (Some f) r st of
        (Some er, st1) \<Rightarrow> (Some er, st1)
      | (None, st1) \<Rightarrow> run fn st1 evs)"

text \<open>
  The call that decides about a leaf, under its name alone: for a directory that cannot
  be read it is the call with the error.
\<close>

definition read_error :: "entry \<Rightarrow> error option" where
  "read_error f = (case f of LockedDir n err emp \<Rightarrow> Some err | _ \<Rightarrow> None)"

definition leaf_event :: "entry \<Rightarrow> event" where
  "leaf_event f = (entry_Name f, f, read_error f)"

subsection \<open>Directories and requests for the examples\<close>

definition sample_entries :: "entry list" where
  "sample_entries =
     [File ''b.srt'' (Readable ''2''), Dir ''d'' [File ''x.srt'' (Readable ''3'')],
      File ''a.srt'' (Readable ''1''), File ''notes.txt'' (Readable ''4'')]"

text \<open>The sample directory with its entries in another order.\<close>

definition shuffled_entries :: "entry list" where
  "shuffled_entries =
     [File ''notes.txt'' (Readable ''4''), File ''a.srt'' (Readable ''1''),
      File ''b.srt'' (Readable ''2''), Dir ''d'' [File ''x.srt'' (Readable ''3'')]]"

text \<open>
  A directory in which \<open>link.srt\<close> is a symbolic link to a directory, and one with a
  subdirectory that may not be read.
\<close>

definition broken_entries :: "entry list" where
  "broken_entries =
     [File ''a.srt'' (Readable ''1''),
      File ''link.srt'' (ReadFails [] ''read subtitles/link.srt: is a directory''),
      File ''z.srt'' (Readable ''5'')]"

definition locked_entries :: "entry list" where
  "locked_entries =
     [File ''a.srt'' (Readable ''1''), LockedDir ''private'' ''permission denied'' False,
      File ''z.srt'' (Readable ''5'')]"

text \<open>
  The request \<open>GET /subtitles/{name}\<close> without a query, and a library that answers with
  the content of the file.
\<close>

definition get_by_name :: "string \<Rightarrow> GetRequest" where
  "get_by_name n = \<lparr>URL_Path = ''/subtitles/'' @ n, RawQuery = [], URLParam_name = n\<rparr>"

definition serve_bytes :: serveContent where
  "serve_bytes name f w = Write_chunk (ServedFile name) w"

subsection \<open>Paths as lists of names\<close>

text \<open>
  The entries a walk reaches, in its order, each with its path as the list of the names
  from the root down. Lists of strings are ordered lexicographically, names by their
  bytes.
\<close>

fun walk_paths :: "entry \<Rightarrow> (string list \<times> entry) list" where
  "walk_paths (File n c) = [([n], File n c)]"
| "walk_paths (LockedDir n err emp) = [([n], LockedDir n err emp)]"
| "walk_paths (Dir n es) =
     ([n], Dir n es) #
     map (\<lambda>(q, f). (n # q, f)) (concat (map walk_paths (sort_key entry_Name es)))"

text \<open>
  The files of a tree with their paths, taken in the order in which the directories hold
  them: the entries that are not directories, with their contents, and the directories
  that cannot be read. The set of the files of an output directory.
\<close>

fun file_paths :: "entry \<Rightarrow> (string list \<times> entry) list" where
  "file_paths (File n c) = [([n], File n c)]"
| "file_paths (LockedDir n err emp) = [([n], LockedDir n err emp)]"
| "file_paths (Dir n es) = map (\<lambda>(q, f). (n # q, f)) (concat (map file_paths es))"

definition file_set :: "entry list \<Rightarrow> (string list \<times> entry) set" where
  "file_set es = set (file_paths (Dir subtitlesDir es))"

text \<open>The leaves with their paths, in the order of the walk.\<close>

definition leaf_paths :: "entry \<Rightarrow> (string list \<times> entry) list" where
  "leaf_paths t = filter (\<lambda>qf. is_leaf (snd qf)) (walk_paths t)"

section \<open>Properties of the subtitle path\<close>

lemma path_Ext_suffix: "trimExt p @ path_Ext p = p"
proof -
  let ?P = "\<lambda>c. c \<noteq> CHR ''.'' \<and> c \<noteq> CHR ''/''"
  let ?t = "takeWhile ?P (rev p)"
  have d: "drop (length ?t) (rev p) = dropWhile ?P (rev p)"
    by (simp add: dropWhile_eq_drop)
  show ?thesis
  proof (cases "dropWhile ?P (rev p)")
    case Nil
    have "path_Ext p = []"
      by (simp only: path_Ext_def Let_def d Nil list.case)
    then show ?thesis by (simp add: trimExt_def)
  next
    case (Cons c r)
    have split: "rev p = ?t @ c # r"
      using Cons takeWhile_dropWhile_id [of ?P "rev p"] by simp
    then have p: "p = rev r @ c # rev ?t"
      by (metis rev_append rev.simps(2) rev_rev_ident append.assoc append_Cons append_Nil)
    show ?thesis
    proof (cases "c = CHR ''.''")
      case True
      have e: "path_Ext p = CHR ''.'' # rev ?t"
        by (simp only: path_Ext_def Let_def d Cons list.case True refl if_True)
      have "length p - length (path_Ext p) = length r"
        using arg_cong [OF p, of length] e by simp
      then have "trimExt p = rev r"
        unfolding trimExt_def using p by (metis append_eq_conv_conj length_rev)
      then show ?thesis using e p True by simp
    next
      case False
      have "path_Ext p = []"
        by (simp only: path_Ext_def Let_def d Cons list.case False if_False)
      then show ?thesis by (simp add: trimExt_def)
    qed
  qed
qed

lemma path_Base_plain: "p \<noteq> [] \<Longrightarrow> CHR ''/'' \<notin> set p \<Longrightarrow> path_Base p = p"
proof -
  assume ne: "p \<noteq> []" and ns: "CHR ''/'' \<notin> set p"
  have a: "dropWhile (\<lambda>c. c = CHR ''/'') (rev p) = rev p"
    using ne ns by (cases "rev p") auto
  have b: "takeWhile (\<lambda>c. c \<noteq> CHR ''/'') (rev p) = rev p"
    using ns by (auto simp: takeWhile_eq_all_conv)
  show ?thesis using ne by (simp add: path_Base_def a b)
qed

lemma Replace_1_at:
  "strings_Index s old = Some j \<Longrightarrow> j + length old = length s \<Longrightarrow>
   take j s @ old = s \<Longrightarrow> strings_Replace_1 s old new = take j s @ new"
  by (auto simp: strings_Replace_1_def)

text \<open>
  What \<open>subtitlePath\<close> does when the extension is not empty and does not occur earlier in
  the name: the extension is replaced by \<open>.srt\<close>, and for a name without a slash the
  result is the path the specification describes.
\<close>

lemma subtitlePath_replaces_extension:
  assumes "path_Ext name \<noteq> []"
    and "strings_Index name (path_Ext name) = Some (length name - length (path_Ext name))"
  shows "subtitlePath dir name = path_Join [dir, trimExt name @ ''.srt'']
    \<and> (CHR ''/'' \<notin> set name \<longrightarrow> subtitlePath dir name = spec_subtitlePath dir name)"
proof -
  have suf: "trimExt name @ path_Ext name = name" by (rule path_Ext_suffix)
  have len: "length name - length (path_Ext name) + length (path_Ext name) = length name"
    using arg_cong [OF suf, of length] by simp
  have "strings_Replace_1 name (path_Ext name) ''.srt'' = trimExt name @ ''.srt''"
    using Replace_1_at [OF assms(2) len] suf by (simp add: trimExt_def)
  then have main: "subtitlePath dir name = path_Join [dir, trimExt name @ ''.srt'']"
    by (simp add: subtitlePath_def)
  have "name \<noteq> []" using assms(1) suf by auto
  then have "CHR ''/'' \<notin> set name \<Longrightarrow> path_Base name = name"
    by (rule path_Base_plain)
  then show ?thesis using main by (simp add: spec_subtitlePath_def)
qed

lemma sample_paths:
  "subtitlePath ''subtitles'' ''a.mp4'' = ''subtitles/a.srt''"
  "subtitlePath ''subtitles'' ''b.mov'' = ''subtitles/b.srt''"
  "subtitlePath ''subtitles'' ''video'' = ''subtitles/.srtvideo''"
  "spec_subtitlePath ''subtitles'' ''video'' = ''subtitles/video.srt''"
  by code_simp+

text \<open>
  A name whose extension occurs twice: the first occurrence is replaced, not the
  extension. A name with a slash: the directory is kept.
\<close>

lemma subtitlePath_repeated_extension:
  "subtitlePath ''subtitles'' ''a.mp4.mp4'' = ''subtitles/a.srt.mp4''
   \<and> spec_subtitlePath ''subtitles'' ''a.mp4.mp4'' = ''subtitles/a.mp4.srt''"
  by code_simp

lemma subtitlePath_keeps_directories:
  "subtitlePath ''subtitles'' ''d/a.mp4'' = ''subtitles/d/a.srt''
   \<and> spec_subtitlePath ''subtitles'' ''d/a.mp4'' = ''subtitles/a.srt''"
  by code_simp

section \<open>Properties of the pipeline\<close>

subsection \<open>Events of the stages\<close>

lemma createVideoFile_events:
  "transcribed (snd (createVideoFile sys s name data w)) = transcribed w"
  "written (snd (createVideoFile sys s name data w)) = written w"
  "generated (snd (createVideoFile sys s name data w)) = generated w"
  by (simp_all add: createVideoFile_def Let_def split: prod.splits sum.splits option.splits)

lemma extractAudio_events:
  "transcribed (snd (extractAudio s p r w)) = transcribed w"
  "written (snd (extractAudio s p r w)) = written w"
  "generated (snd (extractAudio s p r w)) = generated w"
  by (simp_all add: extractAudio_def split: prod.splits sum.splits)

lemma requestSubtitle_events:
  "transcribed (snd (requestSubtitle s d n r w)) =
     transcribed w @ [\<lparr>Name = n, Language = LanguagePortuguese, Format = FormatSrt, Data = d\<rparr>]"
  "written (snd (requestSubtitle s d n r w)) = written w"
  "generated (snd (requestSubtitle s d n r w)) = generated w"
  by (simp_all add: requestSubtitle_def Let_def split: sum.splits)

lemma writeFile_events:
  "transcribed (snd (writeFile sys p d w)) = transcribed w"
  "generated (snd (writeFile sys p d w)) = generated w"
  "fst (writeFile sys p d w) = None \<Longrightarrow> written (snd (writeFile sys p d w)) = written w @ [(p, d)]"
  "\<exists>ws. written (snd (writeFile sys p d w)) = written w @ ws"
  by (simp_all add: writeFile_def Let_def split: option.splits)

lemma removeFile_events:
  "transcribed (removeFile sys p w) = transcribed w"
  "written (removeFile sys p w) = written w"
  "generated (removeFile sys p w) = generated w"
  by (simp_all add: removeFile_def split: option.splits)

lemma processFile_channel:
  "snd (processFile sys s inp w errCh) = errCh @ snd (processFile sys s inp w [])"
  "fst (processFile sys s inp w errCh) = fst (processFile sys s inp w [])"
  by (simp_all add: processFile_def Let_def split: prod.splits sum.splits option.splits)

lemma processFile_failed:
  "(snd (processFile sys s inp w []) = []) = (failed_stage sys s inp w = None)"
  by (simp add: processFile_def failed_stage_def Let_def
      split: prod.splits sum.splits option.splits)

lemma processFile_one_error: "length (snd (processFile sys s inp w [])) \<le> 1"
  by (simp add: processFile_def Let_def split: prod.splits sum.splits option.splits)


lemma processFile_written:
  "\<exists>ws. written (fst (processFile sys s inp w errCh)) = written w @ ws \<and>
     (failed_stage sys s inp w = None \<longrightarrow>
        (\<exists>d. (subtitlePath (outputDir s) (FileName inp), d) \<in> set ws))"
proof (cases "createVideoFile sys s (FileName inp) (Input.Data inp) w")
  case c: (Pair r1 w1)
  have e1: "written w1 = written w"
    using createVideoFile_events(2) [of sys s "FileName inp" "Input.Data inp" w] c by simp
  show ?thesis
  proof (cases r1)
    case (Inl err)
    then show ?thesis using c e1 by (simp add: processFile_def failed_stage_def)
  next
    case v: (Inr videoPath)
    show ?thesis
    proof (cases "extractAudio s videoPath (sampleRate s) w1")
      case x: (Pair r2 w2)
      have e2: "written w2 = written w"
        using extractAudio_events(2) [of s videoPath "sampleRate s" w1] x e1 by simp
      show ?thesis
      proof (cases r2)
        case (Inl err)
        then show ?thesis
          using c v x e2 by (simp add: processFile_def failed_stage_def removeFile_events)
      next
        case a: (Inr audioFilePath)
        show ?thesis
        proof (cases "readFile sys audioFilePath w2")
          case (Inl err)
          then show ?thesis
            using c v x a e2 by (simp add: processFile_def failed_stage_def removeFile_events)
        next
          case r: (Inr audioData)
          show ?thesis
          proof (cases "requestSubtitle s audioData (FileName inp) (sampleRate s) w2")
            case q: (Pair r3 w3)
            have e3: "written w3 = written w"
              using requestSubtitle_events(2) [of s audioData "FileName inp" "sampleRate s" w2]
                q e2 by simp
            show ?thesis
            proof (cases r3)
              case (Inl err)
              then show ?thesis
                using c v x a r q e3
                by (simp add: processFile_def failed_stage_def removeFile_events)
            next
              case d: (Inr subData)
              let ?p = "subtitlePath (outputDir s) (FileName inp)"
              obtain r4 w4 where wr: "writeFile sys ?p subData w3 = (r4, w4)"
                by (cases "writeFile sys ?p subData w3")
              obtain ws where ws: "written w4 = written w @ ws"
                using writeFile_events(4) [of sys ?p subData w3] wr e3 by auto
              have ok: "r4 = None \<Longrightarrow> ws = [(?p, subData)]"
                using writeFile_events(3) [of sys ?p subData w3] wr e3 ws by simp
              show ?thesis
                using c v x a r q d wr ws ok
                by (cases r4) (simp_all add: processFile_def failed_stage_def removeFile_events)
            qed
          qed
        qed
      qed
    qed
  qed
qed

lemma processFile_transcribed:
  "transcribed (fst (processFile sys s inp w errCh)) =
     transcribed w @
     (case audio_in_memory sys s inp w of
        None \<Rightarrow> []
      | Some d \<Rightarrow> [\<lparr>Name = FileName inp, Language = LanguagePortuguese, Format = FormatSrt,
                     Data = d\<rparr>])"
proof (cases "createVideoFile sys s (FileName inp) (Input.Data inp) w")
  case c: (Pair r1 w1)
  have e1: "transcribed w1 = transcribed w"
    using createVideoFile_events(1) [of sys s "FileName inp" "Input.Data inp" w] c by simp
  show ?thesis
  proof (cases r1)
    case (Inl err)
    then show ?thesis using c e1 by (simp add: processFile_def audio_in_memory_def)
  next
    case v: (Inr videoPath)
    show ?thesis
    proof (cases "extractAudio s videoPath (sampleRate s) w1")
      case x: (Pair r2 w2)
      have e2: "transcribed w2 = transcribed w"
        using extractAudio_events(1) [of s videoPath "sampleRate s" w1] x e1 by simp
      show ?thesis
      proof (cases r2)
        case (Inl err)
        then show ?thesis
          using c v x e2 by (simp add: processFile_def audio_in_memory_def removeFile_events)
      next
        case a: (Inr audioFilePath)
        show ?thesis
        proof (cases "readFile sys audioFilePath w2")
          case (Inl err)
          then show ?thesis
            using c v x a e2
            by (simp add: processFile_def audio_in_memory_def removeFile_events)
        next
          case r: (Inr audioData)
          obtain r3 w3 where
            q: "requestSubtitle s audioData (FileName inp) (sampleRate s) w2 = (r3, w3)"
            by (cases "requestSubtitle s audioData (FileName inp) (sampleRate s) w2")
          have e3: "transcribed w3 = transcribed w @
              [\<lparr>Name = FileName inp, Language = LanguagePortuguese, Format = FormatSrt,
                Data = audioData\<rparr>]"
            using requestSubtitle_events(1) [of s audioData "FileName inp" "sampleRate s" w2]
              q e2 by simp
          show ?thesis
          proof (cases r3)
            case (Inl err)
            then show ?thesis
              using c v x a r q e3
              by (simp add: processFile_def audio_in_memory_def removeFile_events)
          next
            case d: (Inr subData)
            let ?p = "subtitlePath (outputDir s) (FileName inp)"
            obtain r4 w4 where wr: "writeFile sys ?p subData w3 = (r4, w4)"
              by (cases "writeFile sys ?p subData w3")
            have e4: "transcribed w4 = transcribed w3"
              using writeFile_events(1) [of sys ?p subData w3] wr by simp
            show ?thesis
              using c v x a r q d wr e3 e4
              by (cases r4)
                (simp_all add: processFile_def audio_in_memory_def removeFile_events)
          qed
        qed
      qed
    qed
  qed
qed

lemma processFile_Language:
  "processFile sys s (inp\<lparr>Input.Language := l\<rparr>) w errCh = processFile sys s inp w errCh"
  by (simp add: processFile_def Let_def split: prod.splits sum.splits option.splits)


lemma writeFile_files:
  "fst (writeFile sys p d w) = None \<Longrightarrow> files (snd (writeFile sys p d w)) p = Some d"
  by (simp add: writeFile_def Let_def split: option.splits)

lemma removeFile_other:
  "p \<noteq> q \<Longrightarrow> files (removeFile sys q w) p = files w p"
  by (simp add: removeFile_def split: option.splits)

lemma requestSubtitle_client:
  "fst (requestSubtitle s d n r w) =
     (case whisperClient s \<lparr>Name = n, Language = LanguagePortuguese, Format = FormatSrt, Data = d\<rparr> of
        Inl err \<Rightarrow> Inl (errorf ''could not generate subtitle'' err)
      | Inr sub \<Rightarrow> Inr sub)"
  by (simp add: requestSubtitle_def Let_def split: sum.splits)

lemma requestSubtitle_world:
  "snd (requestSubtitle s d n r w) =
     w\<lparr>transcribed := transcribed w @
         [\<lparr>Name = n, Language = LanguagePortuguese, Format = FormatSrt, Data = d\<rparr>]\<rparr>"
  by (simp add: requestSubtitle_def Let_def split: sum.splits)

lemma requestSubtitle_eq:
  "requestSubtitle s d n r w =
     (case whisperClient s \<lparr>Name = n, Language = LanguagePortuguese, Format = FormatSrt, Data = d\<rparr> of
        Inl err \<Rightarrow> Inl (errorf ''could not generate subtitle'' err)
      | Inr sub \<Rightarrow> Inr sub,
      w\<lparr>transcribed := transcribed w @
         [\<lparr>Name = n, Language = LanguagePortuguese, Format = FormatSrt, Data = d\<rparr>]\<rparr>)"
  by (simp add: requestSubtitle_def Let_def split: sum.splits)

lemma stages_client:
  "createVideoFile sys (s\<lparr>whisperClient := c\<rparr>) n d w = createVideoFile sys s n d w"
  "extractAudio (s\<lparr>whisperClient := c\<rparr>) p r w = extractAudio s p r w"
  by (simp_all add: createVideoFile_def extractAudio_def)

lemma audio_in_memory_stages:
  assumes "audio_in_memory sys s inp w = Some d"
  obtains videoPath w1 audioFilePath w2 where
    "createVideoFile sys s (FileName inp) (Input.Data inp) w = (Inr videoPath, w1)"
    "extractAudio s videoPath (sampleRate s) w1 = (Inr audioFilePath, w2)"
    "readFile sys audioFilePath w2 = Inr d"
proof -
  obtain r1 w1 where cv: "createVideoFile sys s (FileName inp) (Input.Data inp) w = (r1, w1)"
    by (cases "createVideoFile sys s (FileName inp) (Input.Data inp) w")
  from assms cv obtain videoPath where v: "r1 = Inr videoPath"
    by (cases r1) (simp_all add: audio_in_memory_def)
  obtain r2 w2 where ex: "extractAudio s videoPath (sampleRate s) w1 = (r2, w2)"
    by (cases "extractAudio s videoPath (sampleRate s) w1")
  from assms cv v ex obtain audioFilePath where au: "r2 = Inr audioFilePath"
    by (cases r2) (simp_all add: audio_in_memory_def)
  have rd: "readFile sys audioFilePath w2 = Inr d"
    using assms cv v ex au by (simp add: audio_in_memory_def split: sum.splits)
  from that cv v ex au rd show ?thesis by simp
qed

lemma processFile_no_call:
  assumes "audio_in_memory sys s inp w = None"
  shows "processFile sys (s\<lparr>whisperClient := c\<rparr>) inp w errCh = processFile sys s inp w errCh"
proof -
  obtain r1 w1 where cv: "createVideoFile sys s (FileName inp) (Input.Data inp) w = (r1, w1)"
    by (cases "createVideoFile sys s (FileName inp) (Input.Data inp) w")
  show ?thesis
  proof (cases r1)
    case (Inl err)
    then show ?thesis using cv by (simp add: processFile_def stages_client)
  next
    case v: (Inr videoPath)
    obtain r2 w2 where ex: "extractAudio s videoPath (sampleRate s) w1 = (r2, w2)"
      by (cases "extractAudio s videoPath (sampleRate s) w1")
    show ?thesis
    proof (cases r2)
      case (Inl err)
      then show ?thesis using cv v ex by (simp add: processFile_def stages_client)
    next
      case au: (Inr audioFilePath)
      from assms cv v ex au obtain err where "readFile sys audioFilePath w2 = Inl err"
        by (cases "readFile sys audioFilePath w2") (simp_all add: audio_in_memory_def)
      then show ?thesis using cv v ex au by (simp add: processFile_def stages_client)
    qed
  qed
qed

lemma processFile_client_only:
  assumes a: "audio_in_memory sys s inp w = Some d"
    and c: "c \<lparr>Name = FileName inp, Language = LanguagePortuguese, Format = FormatSrt, Data = d\<rparr>
          = whisperClient s \<lparr>Name = FileName inp, Language = LanguagePortuguese,
                              Format = FormatSrt, Data = d\<rparr>"
  shows "processFile sys (s\<lparr>whisperClient := c\<rparr>) inp w errCh = processFile sys s inp w errCh"
proof -
  from a obtain videoPath w1 audioFilePath w2 where
    cv: "createVideoFile sys s (FileName inp) (Input.Data inp) w = (Inr videoPath, w1)" and
    ex: "extractAudio s videoPath (sampleRate s) w1 = (Inr audioFilePath, w2)" and
    rd: "readFile sys audioFilePath w2 = Inr d"
    by (rule audio_in_memory_stages)
  have r: "requestSubtitle (s\<lparr>whisperClient := c\<rparr>) d (FileName inp) (sampleRate s) w2
      = requestSubtitle s d (FileName inp) (sampleRate s) w2"
    using c by (simp add: requestSubtitle_def Let_def)
  obtain r3 w3 where rq: "requestSubtitle s d (FileName inp) (sampleRate s) w2 = (r3, w3)"
    by (cases "requestSubtitle s d (FileName inp) (sampleRate s) w2")
  show ?thesis
    using cv ex rd rq by (cases r3) (simp_all add: processFile_def stages_client r)
qed

lemma processFile_client_error:
  assumes a: "audio_in_memory sys s inp w = Some d"
    and c: "whisperClient s \<lparr>Name = FileName inp, Language = LanguagePortuguese,
                              Format = FormatSrt, Data = d\<rparr> = Inl err"
  shows "snd (processFile sys s inp w errCh) =
           errCh @ [errorf ''could not generate subtitle''
                      (errorf ''could not generate subtitle'' err)]
         \<and> failed_stage sys s inp w = Some Transcribe"
proof -
  from a obtain videoPath w1 audioFilePath w2 where
    cv: "createVideoFile sys s (FileName inp) (Input.Data inp) w = (Inr videoPath, w1)" and
    ex: "extractAudio s videoPath (sampleRate s) w1 = (Inr audioFilePath, w2)" and
    rd: "readFile sys audioFilePath w2 = Inr d"
    by (rule audio_in_memory_stages)
  show ?thesis
    using cv ex rd c by (simp add: processFile_def failed_stage_def requestSubtitle_eq)
qed

lemma processFile_client_subtitle:
  assumes a: "audio_in_memory sys s inp w = Some d"
    and c: "whisperClient s \<lparr>Name = FileName inp, Language = LanguagePortuguese,
                              Format = FormatSrt, Data = d\<rparr> = Inr sub"
  shows "(failed_stage sys s inp w = None \<or> failed_stage sys s inp w = Some Persist)
     \<and> (failed_stage sys s inp w = None
          \<and> subtitlePath (outputDir s) (FileName inp) \<notin> set (temp_paths sys s inp w)
        \<longrightarrow> files (fst (processFile sys s inp w errCh))
              (subtitlePath (outputDir s) (FileName inp)) = Some sub)"
proof -
  let ?p = "subtitlePath (outputDir s) (FileName inp)"
  from a obtain videoPath w1 audioFilePath w2 where
    cv: "createVideoFile sys s (FileName inp) (Input.Data inp) w = (Inr videoPath, w1)" and
    ex: "extractAudio s videoPath (sampleRate s) w1 = (Inr audioFilePath, w2)" and
    rd: "readFile sys audioFilePath w2 = Inr d"
    by (rule audio_in_memory_stages)
  let ?w3 = "w2\<lparr>transcribed := transcribed w2 @
         [\<lparr>Name = FileName inp, Language = LanguagePortuguese, Format = FormatSrt, Data = d\<rparr>]\<rparr>"
  have rq: "requestSubtitle s d (FileName inp) (sampleRate s) w2 = (Inr sub, ?w3)"
    using c by (simp add: requestSubtitle_eq)
  obtain r4 w4 where wr: "writeFile sys ?p sub ?w3 = (r4, w4)"
    by (cases "writeFile sys ?p sub ?w3")
  have fs: "failed_stage sys s inp w = (case r4 of None \<Rightarrow> None | Some err \<Rightarrow> Some Persist)"
    using cv ex rd rq wr by (simp add: failed_stage_def)
  have 1: "failed_stage sys s inp w = None \<or> failed_stage sys s inp w = Some Persist"
    using fs by (cases r4) simp_all
  have tp: "temp_paths sys s inp w = [videoPath, audioFilePath]"
    using cv ex by (simp add: temp_paths_def)
  have 2: "files (fst (processFile sys s inp w errCh)) ?p = Some sub"
    if f: "failed_stage sys s inp w = None" and t: "?p \<notin> set (temp_paths sys s inp w)"
  proof -
    have ok: "r4 = None" using f fs by (cases r4) simp_all
    have fw: "files w4 ?p = Some sub"
      using writeFile_files [of sys ?p sub ?w3] wr ok by simp
    have ne: "?p \<noteq> videoPath" "?p \<noteq> audioFilePath" using t tp by auto
    have "fst (processFile sys s inp w errCh) =
        removeFile sys videoPath (removeFile sys audioFilePath w4)"
      using cv ex rd rq wr ok by (simp add: processFile_def)
    then show ?thesis using fw ne by (simp add: removeFile_other)
  qed
  from 1 2 show ?thesis by blast
qed

lemma processFile_calls:
  "new_calls w (fst (processFile sys s inp w errCh)) =
     (case audio_in_memory sys s inp w of
        None \<Rightarrow> []
      | Some d \<Rightarrow> [\<lparr>Name = FileName inp, Language = LanguagePortuguese, Format = FormatSrt,
                     Data = d\<rparr>])"
  using processFile_transcribed [of sys s inp w errCh] by (simp add: new_calls_def)

lemma run_pipelines_Cons:
  "run_pipelines sys s (inp # inps) (w, ch) =
     run_pipelines sys s inps
       (fst (processFile sys s inp w []), ch @ snd (processFile sys s inp w []))"
proof -
  have "processFile sys s inp w ch =
      (fst (processFile sys s inp w []), ch @ snd (processFile sys s inp w []))"
    using processFile_channel [of sys s inp w ch] by (simp add: prod_eq_iff)
  then show ?thesis by (simp add: run_pipelines_def)
qed

lemma run_pipelines_result:
  "\<exists>errs ws. snd (run_pipelines sys s inputs (w, ch)) = ch @ errs
     \<and> (errs = []) = list_all (\<lambda>st. st = None) (stage_outcomes sys s inputs w)
     \<and> written (fst (run_pipelines sys s inputs (w, ch))) = written w @ ws
     \<and> (errs = [] \<longrightarrow>
          (\<forall>inp \<in> set inputs. \<exists>d. (subtitlePath (outputDir s) (FileName inp), d) \<in> set ws))"
proof (induction inputs arbitrary: w ch)
  case Nil
  show ?case by (simp add: run_pipelines_def)
next
  case (Cons inp inps)
  let ?w1 = "fst (processFile sys s inp w [])"
  let ?e1 = "snd (processFile sys s inp w [])"
  from processFile_written [of sys s inp w "[]"]
  obtain ws1 where p: "written ?w1 = written w @ ws1 \<and>
     (failed_stage sys s inp w = None \<longrightarrow>
        (\<exists>d. (subtitlePath (outputDir s) (FileName inp), d) \<in> set ws1))" ..
  from Cons.IH [of ?w1 "ch @ ?e1"]
  obtain errs ws where
    ih: "snd (run_pipelines sys s inps (?w1, ch @ ?e1)) = (ch @ ?e1) @ errs
     \<and> (errs = []) = list_all (\<lambda>st. st = None) (stage_outcomes sys s inps ?w1)
     \<and> written (fst (run_pipelines sys s inps (?w1, ch @ ?e1))) = written ?w1 @ ws
     \<and> (errs = [] \<longrightarrow>
          (\<forall>inp \<in> set inps. \<exists>d. (subtitlePath (outputDir s) (FileName inp), d) \<in> set ws))"
    by (elim exE)
  have f: "(?e1 = []) = (failed_stage sys s inp w = None)"
    by (rule processFile_failed)
  have 1: "snd (run_pipelines sys s (inp # inps) (w, ch)) = ch @ (?e1 @ errs)"
    using ih by (simp add: run_pipelines_Cons)
  have 2: "(?e1 @ errs = []) =
      list_all (\<lambda>st. st = None) (stage_outcomes sys s (inp # inps) w)"
    using ih f by simp
  have 3: "written (fst (run_pipelines sys s (inp # inps) (w, ch))) = written w @ (ws1 @ ws)"
    using ih p by (simp add: run_pipelines_Cons)
  have 4: "?e1 @ errs = [] \<longrightarrow>
      (\<forall>i \<in> set (inp # inps). \<exists>d. (subtitlePath (outputDir s) (FileName i), d)
          \<in> set (ws1 @ ws))"
    using p ih f by auto
  from 1 2 3 4 show ?case by blast
qed

lemma drain_last: "(foldl (\<lambda>err e. Some e) a errCh = None) = (a = None \<and> errCh = [])"
  by (induction errCh arbitrary: a) auto

lemma removeFile_gone:
  "fault sys Remove p (files w) = None \<Longrightarrow> files (removeFile sys p w) p = None"
  by (simp add: removeFile_def)

lemma removeFile_stays_gone:
  "files w p = None \<Longrightarrow> files (removeFile sys q w) p = None"
  by (simp add: removeFile_def split: option.splits)

lemma processFile_cleanup:
  assumes "\<forall>p fs. fault sys Remove p fs = None"
    and "createVideoFile sys s (FileName inp) (Input.Data inp) w = (Inr videoPath, w1)"
  shows "files (fst (processFile sys s inp w errCh)) videoPath = None"
    and "extractAudio s videoPath (sampleRate s) w1 = (Inr audioFilePath, w2) \<Longrightarrow>
      files (fst (processFile sys s inp w errCh)) audioFilePath = None"
  using assms
  by (simp_all add: processFile_def Let_def removeFile_gone removeFile_stays_gone
      split: prod.splits sum.splits option.splits)


lemmas pipeline_defs =
  processFile_def createVideoFile_def os_CreateTemp_def extractAudio_def readFile_def
  requestSubtitle_def writeFile_def removeFile_def errorf_def Let_def
  sample_os_def sample_subtitler_def empty_world_def

lemmas generate_defs = GenerateFromAudioData_def run_pipelines_def

subsection \<open>Cleanup of the temporary files\<close>

text \<open>
  Claim C1: every temporary video and audio file a pipeline run creates is removed before
  the run ends, whichever of the stages materialize, extract, read, transcribe and
  persist fails. \<open>processFile_cleanup\<close> above is what the code achieves once
  \<open>createVideoFile\<close> has succeeded. When the copy into the temporary file fails (here the
  reader of the job fails after three bytes), \<open>createVideoFile\<close> returns no path, no
  removal is registered, and the file that \<open>os.CreateTemp\<close> created stays in the
  temporary directory.
\<close>

theorem processFile_leaves_video_file:
  "files empty_world ''tmp/a.mp41'' = None
   \<and> files (fst (processFile sample_os sample_subtitler broken_job empty_world []))
        ''tmp/a.mp41'' = Some ''abc''
   \<and> snd (processFile sample_os sample_subtitler broken_job empty_world []) =
        [''could not create video file: could not write video file: unexpected EOF'']"
  by (simp add: pipeline_defs broken_job_def)

subsection \<open>Aggregation of the failures\<close>

text \<open>
  With the pipelines run one after another, the call returns an error exactly when some
  pipeline failed at some stage, and when it returns none every pipeline has written a
  file at the path \<open>subtitlePath\<close> computes for its job.
\<close>

lemma GenerateFromAudioData_error_iff:
  "(fst (GenerateFromAudioData sys s inputs w) \<noteq> None) =
     (\<exists>st \<in> set (pipeline_outcomes sys s inputs w). st \<noteq> None)
   \<and> (fst (GenerateFromAudioData sys s inputs w) = None \<longrightarrow>
        (\<forall>inp \<in> set inputs. \<exists>d. (subtitlePath (outputDir s) (FileName inp), d)
            \<in> set (new_writes w (snd (GenerateFromAudioData sys s inputs w)))))"
proof -
  let ?w0 = "w\<lparr>generated := generated w @ [inputs]\<rparr>"
  obtain wf errCh where r: "run_pipelines sys s inputs (?w0, []) = (wf, errCh)"
    by (cases "run_pipelines sys s inputs (?w0, [])")
  from run_pipelines_result [of sys s inputs ?w0 "[]"]
  obtain errs ws where
    ih: "snd (run_pipelines sys s inputs (?w0, [])) = [] @ errs
     \<and> (errs = []) = list_all (\<lambda>st. st = None) (stage_outcomes sys s inputs ?w0)
     \<and> written (fst (run_pipelines sys s inputs (?w0, []))) = written ?w0 @ ws
     \<and> (errs = [] \<longrightarrow>
          (\<forall>inp \<in> set inputs. \<exists>d. (subtitlePath (outputDir s) (FileName inp), d) \<in> set ws))"
    by (elim exE)
  have e: "errs = errCh" using ih r by simp
  have res: "(fst (GenerateFromAudioData sys s inputs w) = None) = (errCh = [])"
    using drain_last [of None errCh]
    by (cases "foldl (\<lambda>err e. Some e) None errCh")
      (simp_all add: GenerateFromAudioData_def r)
  have wr: "snd (GenerateFromAudioData sys s inputs w) = wf"
    by (simp add: GenerateFromAudioData_def r split: option.splits)
  have nw: "new_writes w (snd (GenerateFromAudioData sys s inputs w)) = ws"
    using ih r wr by (simp add: new_writes_def)
  have "(fst (GenerateFromAudioData sys s inputs w) \<noteq> None) =
      (\<exists>st \<in> set (pipeline_outcomes sys s inputs w). st \<noteq> None)"
    using res ih e by (auto simp: pipeline_outcomes_def list_all_iff)
  then show ?thesis using res ih e nw by simp
qed

text \<open>
  Claim C2: \<open>GenerateFromAudioData\<close> returns an error if and only if at least one pipeline
  failed at some stage, and when it returns nil every job's subtitle file was written to
  the output directory. The subtitle file of a job is the file named after the original
  filename with its extension replaced by \<open>.srt\<close>. For the single job \<open>video\<close> on the sample
  installation the call returns nil, and the output directory holds no file
  \<open>subtitles/video.srt\<close> afterwards: the subtitle bytes are in \<open>subtitles/.srtvideo\<close>.
\<close>

theorem GenerateFromAudioData_nil_without_subtitle_file:
  "fst (GenerateFromAudioData sample_os sample_subtitler [sample_job ''video''] empty_world)
     = None
   \<and> spec_subtitlePath ''subtitles'' ''video'' = ''subtitles/video.srt''
   \<and> files (snd (GenerateFromAudioData sample_os sample_subtitler [sample_job ''video'']
                   empty_world)) ''subtitles/video.srt'' = None
   \<and> files (snd (GenerateFromAudioData sample_os sample_subtitler [sample_job ''video'']
                   empty_world)) ''subtitles/.srtvideo'' = Some ''1 ola''"
  by (simp add: generate_defs pipeline_defs sample_job_def sample_paths)


text \<open>
  One failing pipeline among two: the call reports the failure and the other pipeline
  has written its subtitle file.
\<close>

lemma GenerateFromAudioData_one_failure:
  "GenerateFromAudioData sample_os sample_subtitler [broken_job, sample_job ''b.mov'']
     empty_world = (r, w) \<Longrightarrow>
   r = Some (''error while processing files: could not create video file: ''
             @ ''could not write video file: unexpected EOF'')
   \<and> written w = [(''subtitles/b.srt'', ''1 ola'')]"
  by (auto simp add: generate_defs pipeline_defs sample_job_def broken_job_def sample_paths)

subsection \<open>The path of the subtitle file\<close>

text \<open>
  Claim C3: for every original filename, names without an extension included, the
  persist stage writes the subtitle to the output directory joined with the base name of
  the filename, its extension replaced by \<open>.srt\<close>. For the filename \<open>video\<close>, which has no
  extension, every stage of the sample installation succeeds and the subtitle is written
  to \<open>subtitles/.srtvideo\<close>, where the specification's path is \<open>subtitles/video.srt\<close>:
  replacing the first occurrence of the empty extension puts \<open>.srt\<close> in front of the name.
\<close>

theorem processFile_no_extension:
  "new_writes empty_world
       (fst (processFile sample_os sample_subtitler (sample_job ''video'') empty_world []))
     = [(''subtitles/.srtvideo'', ''1 ola'')]
   \<and> spec_subtitlePath ''subtitles'' ''video'' = ''subtitles/video.srt''"
  by (simp add: pipeline_defs sample_job_def sample_paths new_writes_def)

subsection \<open>The call of the transcription client\<close>

text \<open>
  Claim C6: the transcribe stage calls the transcription client with the audio bytes in
  memory, the job's original filename, the subtitle-rip format and the Portuguese
  language code, whatever the job's \<open>Language\<close> field holds. The client is a function of
  the \<open>Subtitler\<close>, and the call shows in what the run does with its answer. When the
  first three stages leave the audio bytes \<open>d\<close> in memory, the run consults the client at
  this one input and nowhere else: replacing the client by any function that gives the
  same answer at this input leaves the run unchanged; when the answer is an error the
  pipeline fails at the transcribe stage and sends that error, wrapped, on the channel;
  when the answer is subtitle bytes the pipeline goes on to the persist stage, and the
  bytes are the content of the subtitle file when that stage succeeds (and the
  subtitle path is not one of the temporary files, which are removed). When the first
  three stages fail, no call is recorded and the run does not depend on the client.
  The \<open>Language\<close> field of the job has no influence on the run.
\<close>

theorem processFile_transcribe_call:
  "(case audio_in_memory sys s inp w of
      None \<Rightarrow>
        new_calls w (fst (processFile sys s inp w errCh)) = []
        \<and> (\<forall>c. processFile sys (s\<lparr>whisperClient := c\<rparr>) inp w errCh
                = processFile sys s inp w errCh)
    | Some d \<Rightarrow>
        new_calls w (fst (processFile sys s inp w errCh))
          = [\<lparr>Name = FileName inp, Language = LanguagePortuguese, Format = FormatSrt, Data = d\<rparr>]
        \<and> (\<forall>c. c \<lparr>Name = FileName inp, Language = LanguagePortuguese, Format = FormatSrt,
                   Data = d\<rparr>
                = whisperClient s \<lparr>Name = FileName inp, Language = LanguagePortuguese,
                                   Format = FormatSrt, Data = d\<rparr>
              \<longrightarrow> processFile sys (s\<lparr>whisperClient := c\<rparr>) inp w errCh
                  = processFile sys s inp w errCh)
        \<and> (case whisperClient s \<lparr>Name = FileName inp, Language = LanguagePortuguese,
                                  Format = FormatSrt, Data = d\<rparr> of
              Inl err \<Rightarrow>
                failed_stage sys s inp w = Some Transcribe
                \<and> snd (processFile sys s inp w errCh)
                  = errCh @ [errorf ''could not generate subtitle''
                               (errorf ''could not generate subtitle'' err)]
            | Inr sub \<Rightarrow>
                (failed_stage sys s inp w = None \<or> failed_stage sys s inp w = Some Persist)
                \<and> (failed_stage sys s inp w = None
                     \<and> subtitlePath (outputDir s) (FileName inp)
                         \<notin> set (temp_paths sys s inp w)
                   \<longrightarrow> files (fst (processFile sys s inp w errCh))
                         (subtitlePath (outputDir s) (FileName inp)) = Some sub)))
   \<and> processFile sys s (inp\<lparr>Input.Language := l\<rparr>) w errCh = processFile sys s inp w errCh"
proof (cases "audio_in_memory sys s inp w")
  case None
  then show ?thesis
    using processFile_calls [of w sys s inp errCh] processFile_no_call [OF None]
      processFile_Language [of sys s l inp w errCh]
    by simp
next
  case (Some d)
  let ?X = "\<lparr>Name = FileName inp, Language = LanguagePortuguese, Format = FormatSrt, Data = d\<rparr>"
  have 1: "new_calls w (fst (processFile sys s inp w errCh)) = [?X]"
    using processFile_calls [of w sys s inp errCh] Some by simp
  have 2: "\<forall>c. c ?X = whisperClient s ?X
      \<longrightarrow> processFile sys (s\<lparr>whisperClient := c\<rparr>) inp w errCh = processFile sys s inp w errCh"
    using processFile_client_only [OF Some] by blast
  have 3: "(case whisperClient s ?X of
              Inl err \<Rightarrow>
                failed_stage sys s inp w = Some Transcribe
                \<and> snd (processFile sys s inp w errCh)
                  = errCh @ [errorf ''could not generate subtitle''
                               (errorf ''could not generate subtitle'' err)]
            | Inr sub \<Rightarrow>
                (failed_stage sys s inp w = None \<or> failed_stage sys s inp w = Some Persist)
                \<and> (failed_stage sys s inp w = None
                     \<and> subtitlePath (outputDir s) (FileName inp)
                         \<notin> set (temp_paths sys s inp w)
                   \<longrightarrow> files (fst (processFile sys s inp w errCh))
                         (subtitlePath (outputDir s) (FileName inp)) = Some sub))"
  proof (cases "whisperClient s ?X")
    case (Inl err)
    then show ?thesis using processFile_client_error [OF Some Inl, of errCh] by simp
  next
    case (Inr sub)
    then show ?thesis using processFile_client_subtitle [OF Some Inr, of errCh] by simp
  qed
  from 1 2 3 processFile_Language [of sys s l inp w errCh] Some show ?thesis by simp
qed

theorem processFile_transcribe_call_witness:
  "audio_in_memory sample_os sample_subtitler (sample_job ''a.mp4'') empty_world = Some ''RIFF''
   \<and> whisperClient sample_subtitler
        \<lparr>Name = ''a.mp4'', Language = LanguagePortuguese, Format = FormatSrt, Data = ''RIFF''\<rparr>
      = Inr ''1 ola''
   \<and> failed_stage sample_os sample_subtitler (sample_job ''a.mp4'') empty_world = None
   \<and> ''subtitles/a.srt''
        \<notin> set (temp_paths sample_os sample_subtitler (sample_job ''a.mp4'') empty_world)
   \<and> files (fst (processFile sample_os sample_subtitler (sample_job ''a.mp4'') empty_world []))
        ''subtitles/a.srt'' = Some ''1 ola''
   \<and> audio_in_memory sample_os deaf_subtitler (sample_job ''a.mp4'') empty_world = Some ''RIFF''
   \<and> whisperClient deaf_subtitler
        \<lparr>Name = ''a.mp4'', Language = LanguagePortuguese, Format = FormatSrt, Data = ''RIFF''\<rparr>
      = Inl ''status 503''
   \<and> snd (processFile sample_os deaf_subtitler (sample_job ''a.mp4'') empty_world [])
      = [''could not generate subtitle: could not generate subtitle: status 503'']"
proof -
  let ?j = "sample_job ''a.mp4''"
  have a: "audio_in_memory sample_os sample_subtitler ?j empty_world = Some ''RIFF''"
    by (simp add: audio_in_memory_def pipeline_defs sample_job_def)
  have c: "whisperClient sample_subtitler
        \<lparr>Name = ''a.mp4'', Language = LanguagePortuguese, Format = FormatSrt, Data = ''RIFF''\<rparr>
      = Inr ''1 ola''"
    by (simp add: sample_subtitler_def)
  have f: "failed_stage sample_os sample_subtitler ?j empty_world = None"
    by (simp add: failed_stage_def pipeline_defs sample_job_def)
  have t: "temp_paths sample_os sample_subtitler ?j empty_world = [''tmp/a.mp41'', ''tmp/a.mp41.wav'']"
    by (simp add: temp_paths_def pipeline_defs sample_job_def)
  have p: "subtitlePath (outputDir sample_subtitler) ''a.mp4'' = ''subtitles/a.srt''"
    by (simp add: sample_subtitler_def sample_paths)
  have n: "FileName ?j = ''a.mp4''" by (simp add: sample_job_def)
  have a': "audio_in_memory sample_os deaf_subtitler ?j empty_world = Some ''RIFF''"
    by (simp add: audio_in_memory_def pipeline_defs sample_job_def deaf_subtitler_def)
  have c': "whisperClient deaf_subtitler
        \<lparr>Name = ''a.mp4'', Language = LanguagePortuguese, Format = FormatSrt, Data = ''RIFF''\<rparr>
      = Inl ''status 503''"
    by (simp add: deaf_subtitler_def)
  from processFile_transcribe_call [where sys = sample_os and s = sample_subtitler and inp = "?j"
      and w = empty_world and errCh = "[]" and l = "[]"]
  have 1: "files (fst (processFile sample_os sample_subtitler ?j empty_world []))
        ''subtitles/a.srt'' = Some ''1 ola''"
    by (simp add: a c f t p n)
  from processFile_transcribe_call [where sys = sample_os and s = deaf_subtitler and inp = "?j"
      and w = empty_world and errCh = "[]" and l = "[]"]
  have 2: "snd (processFile sample_os deaf_subtitler ?j empty_world [])
      = [''could not generate subtitle: could not generate subtitle: status 503'']"
    by (simp add: a' c' n errorf_def)
  from a c f t 1 a' c' 2 show ?thesis by simp
qed

section \<open>Properties of the upload handler\<close>

lemma big_length: "length big_content = 2 ^ 30 + 1"
  by (simp add: big_content_def)

lemmas response_defs =
  e_def http_Error_def Write_chunk_def WriteHeader_def Header_Set_def
  response_def new_ResponseWriter_def

lemmas upload_defs =
  createSubtitles_def ParseMultipartForm_def upload_of_def maxFileSize_def
  content_size_def form_File_def FileHeader_Open_def Part_FileName_def path_Base_def

text \<open>
  Claim C5: an upload request whose body exceeds 1 GiB is rejected by the handler, which
  does not invoke the orchestrator. The handler passes \<open>maxFileSize\<close> to
  \<open>ParseMultipartForm\<close>, where it bounds the memory used for the parts, not the size of
  the body: the file part of the request below is one byte larger than \<open>maxFileSize\<close>, is
  stored in a temporary file, and the handler goes on to call \<open>GenerateFromAudioData\<close>
  with it and answers 200.
\<close>

theorem createSubtitles_accepts_big_body:
  "content_size (upload_of ''a.mp4'' big_content) > 2 ^ 30
   \<and> generated (snd (createSubtitles sample_os sample_subtitler
         (upload_of ''a.mp4'' big_content) empty_world new_ResponseWriter))
       = [[\<lparr>FileName = ''a.mp4'', Data = \<lparr>delivered = big_content, failure = None\<rparr>,
           Language = ''pt''\<rparr>]]
   \<and> response (fst (createSubtitles sample_os sample_subtitler
         (upload_of ''a.mp4'' big_content) empty_world new_ResponseWriter))
       = (200, [(''Content-Type'', ''application/json'')],
          [Json (JObject [(''message'', JString ''Subtitles generated successfully'')])])"
  by (simp add: upload_defs big_length generate_defs pipeline_defs sample_paths response_defs)

text \<open>
  The handler answers 400 without calling the orchestrator when the body does not parse
  or carries no part named \<open>file\<close>.
\<close>

lemma createSubtitles_bad_request:
  assumes "fst (ParseMultipartForm sys maxFileSize r wld) = Inl err
           \<or> (\<exists>form. fst (ParseMultipartForm sys maxFileSize r wld) = Inr form
                \<and> form_File form ''file'' = [])"
  shows "fst (response (fst (createSubtitles sys s r wld new_ResponseWriter))) = 400
         \<and> generated (snd (createSubtitles sys s r wld new_ResponseWriter)) = generated wld"
proof -
  obtain res wld1 where p: "ParseMultipartForm sys maxFileSize r wld = (res, wld1)"
    by (cases "ParseMultipartForm sys maxFileSize r wld")
  have g: "generated wld1 = generated wld"
    using p by (auto simp: ParseMultipartForm_def split: option.splits prod.splits)
  from assms p g show ?thesis
    by (auto simp: createSubtitles_def response_defs)
qed

section \<open>Properties of the directory handlers\<close>

subsection \<open>Walks\<close>

text \<open>
  A walk that removes nothing makes the calls of \<open>events\<close> until one returns an error.
\<close>

lemma readDir_ok_None: "readDir_ok st p = None"
  by (simp add: readDir_ok_def)

lemma run_append:
  "run fn st (xs @ ys) =
     (case run fn st xs of (Some er, st1) \<Rightarrow> (Some er, st1) | (None, st1) \<Rightarrow> run fn st1 ys)"
proof (induction xs arbitrary: st)
  case Nil
  show ?case by simp
next
  case (Cons x xs)
  obtain p f r where x: "x = (p, f, r)" by (cases x)
  obtain a st1 where fnr: "fn p (Some f) r st = (a, st1)" by (cases "fn p (Some f) r st")
  show ?case using Cons.IH [of st1] x fnr by (cases a) simp_all
qed

lemma foldl_stopped:
  "foldl (\<lambda>acc d1. case fst acc of Some er \<Rightarrow> acc | None \<Rightarrow> g d1 (snd acc)) (Some er, st) ds
     = (Some er, st)"
  by (induction ds) simp_all

lemma walk_children_run:
  assumes ih: "\<And>d st. d \<in> set ds \<Longrightarrow>
        walkDir readDir_ok fn (p @ ''/'' @ entry_Name d) d st
          = run fn st (events (p @ ''/'' @ entry_Name d) d)"
  shows "foldl (\<lambda>acc d1. case fst acc of
                            Some er \<Rightarrow> acc
                          | None \<Rightarrow> walkDir readDir_ok fn (p @ ''/'' @ entry_Name d1) d1 (snd acc))
           (None, st) ds
         = run fn st (concat (map (\<lambda>d. events (p @ ''/'' @ entry_Name d) d) ds))"
  using assms
proof (induction ds arbitrary: st)
  case Nil
  show ?case by simp
next
  case (Cons d ds)
  let ?E = "events (p @ ''/'' @ entry_Name d) d"
  have 1: "walkDir readDir_ok fn (p @ ''/'' @ entry_Name d) d st = run fn st ?E"
    using Cons.prems [of d st] by simp
  obtain a st1 where r: "run fn st ?E = (a, st1)" by (cases "run fn st ?E")
  have ih': "\<And>d' st. d' \<in> set ds \<Longrightarrow>
        walkDir readDir_ok fn (p @ ''/'' @ entry_Name d') d' st
          = run fn st (events (p @ ''/'' @ entry_Name d') d')"
    using Cons.prems by simp
  show ?case
  proof (cases a)
    case None
    then show ?thesis using Cons.IH [OF ih', of st1] 1 r by (simp add: run_append)
  next
    case (Some er)
    then show ?thesis
      using 1 r
        foldl_stopped [of "\<lambda>d1. walkDir readDir_ok fn (p @ ''/'' @ entry_Name d1) d1" er st1 ds]
      by (simp add: run_append)
  qed
qed

lemma walkDir_run: "walkDir readDir_ok fn p t st = run fn st (events p t)"
proof (induction t arbitrary: p st)
  case (File n c)
  show ?case by (simp split: prod.splits option.splits)
next
  case (LockedDir n err emp)
  show ?case by (simp add: readDir_ok_None split: prod.splits option.splits)
next
  case (Dir n es)
  obtain a st1 where fnr: "fn p (Some (Dir n es)) None st = (a, st1)"
    by (cases "fn p (Some (Dir n es)) None st")
  show ?case
  proof (cases a)
    case (Some er)
    then show ?thesis using fnr by simp
  next
    case None
    have ih: "\<And>d st. d \<in> set (sort_key entry_Name es) \<Longrightarrow>
        walkDir readDir_ok fn (p @ ''/'' @ entry_Name d) d st
          = run fn st (events (p @ ''/'' @ entry_Name d) d)"
      using Dir.IH by simp
    have "walkDir readDir_ok fn p (Dir n es) st =
        foldl (\<lambda>acc d1. case fst acc of
                            Some er \<Rightarrow> acc
                          | None \<Rightarrow> walkDir readDir_ok fn (p @ ''/'' @ entry_Name d1) d1 (snd acc))
          (None, st1) (sort_key entry_Name es)"
      using fnr None by (simp add: readDir_ok_def)
    also have "\<dots> = run fn st1
        (concat (map (\<lambda>d. events (p @ ''/'' @ entry_Name d) d) (sort_key entry_Name es)))"
      by (rule walk_children_run [OF ih])
    also have "\<dots> = run fn st (events p (Dir n es))"
      using fnr None by simp
    finally show ?thesis .
  qed
qed

lemma path_Base_join: "valid_name n \<Longrightarrow> path_Base (p @ CHR ''/'' # n) = n"
proof -
  assume v: "valid_name n"
  then obtain c cs where r: "rev n = c # cs" and c: "c \<noteq> CHR ''/''"
    by (cases "rev n") (auto simp: valid_name_def)
  have ns: "\<And>x. x \<in> set (rev n) \<Longrightarrow> x \<noteq> CHR ''/''"
    using v by (auto simp: valid_name_def)
  have a: "dropWhile (\<lambda>c. c = CHR ''/'') (rev (p @ CHR ''/'' # n)) = rev n @ CHR ''/'' # rev p"
    using r c by simp
  have "takeWhile (\<lambda>c. c \<noteq> CHR ''/'') (rev n @ CHR ''/'' # rev p)
      = rev n @ takeWhile (\<lambda>c. c \<noteq> CHR ''/'') (CHR ''/'' # rev p)"
    by (rule takeWhile_append2) (rule ns)
  then have b: "takeWhile (\<lambda>c. c \<noteq> CHR ''/'') (rev n @ CHR ''/'' # rev p) = rev n"
    by simp
  have "n \<noteq> []" using v by (simp add: valid_name_def)
  then show ?thesis
    unfolding path_Base_def Let_def a by (simp add: b)
qed


lemma valid_entry_Name: "valid t \<Longrightarrow> valid_name (entry_Name t)"
  by (cases t) simp_all

lemma path_Base_name: "valid_name n \<Longrightarrow> path_Base n = n"
  by (simp add: valid_name_def path_Base_plain)

text \<open>
  A function that does nothing for a directory and uses of the path only its last
  element, as the functions of the list and archive handlers do, sees of a directory
  tree only its leaves.
\<close>

lemma run_children_leaves:
  assumes ih: "\<And>d st. d \<in> set ds \<Longrightarrow>
        run fn st (events (p @ ''/'' @ entry_Name d) d) = run fn st (map leaf_event (leaves d))"
  shows "run fn st (concat (map (\<lambda>d. events (p @ ''/'' @ entry_Name d) d) ds))
         = run fn st (map leaf_event (concat (map leaves ds)))"
  using assms
proof (induction ds arbitrary: st)
  case Nil
  show ?case by simp
next
  case (Cons d ds)
  have 1: "run fn st (events (p @ ''/'' @ entry_Name d) d) = run fn st (map leaf_event (leaves d))"
    using Cons.prems [of d st] by simp
  have ih': "\<And>d' st. d' \<in> set ds \<Longrightarrow>
        run fn st (events (p @ ''/'' @ entry_Name d') d') = run fn st (map leaf_event (leaves d'))"
    using Cons.prems by simp
  obtain a st1 where r: "run fn st (map leaf_event (leaves d)) = (a, st1)"
    by (cases "run fn st (map leaf_event (leaves d))")
  show ?case
    using Cons.IH [OF ih', of st1] 1 r by (cases a) (simp_all add: run_append)
qed

lemma run_events_leaves:
  assumes dirs: "\<And>p f st. IsDir f \<Longrightarrow> fn p (Some f) None st = (None, st)"
    and base: "\<And>p q f r st. path_Base p = path_Base q \<Longrightarrow> fn p (Some f) r st = fn q (Some f) r st"
  shows "valid t \<Longrightarrow> path_Base p = entry_Name t \<Longrightarrow>
     run fn st (events p t) = run fn st (map leaf_event (leaves t))"
proof (induction t arbitrary: p st)
  case (File n c)
  have "path_Base p = path_Base n" using File.prems by (simp add: path_Base_name)
  from base [OF this] show ?case by (simp add: leaf_event_def read_error_def)
next
  case (LockedDir n err emp)
  have "path_Base p = path_Base n" using LockedDir.prems by (simp add: path_Base_name)
  from base [OF this] dirs [of "LockedDir n err emp" p st]
  show ?case by (simp add: leaf_event_def read_error_def)
next
  case (Dir n es)
  have ih: "\<And>d st. d \<in> set (sort_key entry_Name es) \<Longrightarrow>
        run fn st (events (p @ ''/'' @ entry_Name d) d) = run fn st (map leaf_event (leaves d))"
  proof -
    fix d st assume "d \<in> set (sort_key entry_Name es)"
    then have d: "d \<in> set es" by simp
    then have vd: "valid d" using Dir.prems(1) by (simp add: list_all_iff)
    have "path_Base (p @ ''/'' @ entry_Name d) = entry_Name d"
      using vd by (simp add: path_Base_join valid_entry_Name)
    from Dir.IH [OF d vd this]
    show "run fn st (events (p @ ''/'' @ entry_Name d) d) = run fn st (map leaf_event (leaves d))" .
  qed
  have "run fn st (events p (Dir n es)) =
      run fn st (concat (map (\<lambda>d. events (p @ ''/'' @ entry_Name d) d) (sort_key entry_Name es)))"
    using dirs [of "Dir n es" p st] by simp
  also have "\<dots> = run fn st (map leaf_event (concat (map leaves (sort_key entry_Name es))))"
    by (rule run_children_leaves [OF ih])
  finally show ?case by simp
qed


subsection \<open>Leaves\<close>

lemma leaves_kind: "f \<in> set (leaves t) \<Longrightarrow> is_leaf f"
proof (induction t)
  case (Dir n es)
  then show ?case by auto
qed simp_all

lemma leaves_valid: "valid t \<Longrightarrow> f \<in> set (leaves t) \<Longrightarrow> valid f"
proof (induction t)
  case (Dir n es)
  from Dir.prems(2) obtain d where d: "d \<in> set es" and m: "f \<in> set (leaves d)" by auto
  have "valid d" using Dir.prems(1) d by (simp add: list_all_iff)
  from Dir.IH [OF d this m] show ?case .
qed simp_all

lemma leaf_read_error: "is_leaf f \<Longrightarrow> IsDir f \<Longrightarrow> read_error f \<noteq> None"
  by (cases f) (simp_all add: read_error_def)

lemma file_read_error: "\<not> IsDir f \<Longrightarrow> read_error f = None"
  by (cases f) (simp_all add: read_error_def)

lemma path_Base_subtitlesDir: "path_Base subtitlesDir = subtitlesDir"
  by (simp add: path_Base_def subtitlesDir_def)

subsection \<open>The list handler on the leaves\<close>

lemma list_fn_dirs: "IsDir f \<Longrightarrow> list_fn p (Some f) None st = (None, st)"
  by (simp add: list_fn_def)

lemma list_fn_base:
  "path_Base p = path_Base q \<Longrightarrow> list_fn p (Some f) r st = list_fn q (Some f) r st"
  by (cases r) (simp_all add: list_fn_def)

lemma list_fn_file:
  "\<not> IsDir f \<Longrightarrow> valid f \<Longrightarrow>
   list_fn (entry_Name f) (Some f) (read_error f) subs =
     (None, if is_srt f then append_name subs (entry_Name f) else subs)"
  by (cases f) (simp_all add: list_fn_def read_error_def is_srt_def path_Base_name)

lemma list_fn_locked:
  "IsDir f \<Longrightarrow> read_error f \<noteq> None \<Longrightarrow>
   fst (list_fn (entry_Name f) (Some f) (read_error f) subs) \<noteq> None"
  by (auto simp: list_fn_def)

lemma list_run_files:
  "\<forall>f \<in> set fs. \<not> IsDir f \<and> valid f \<Longrightarrow>
   run list_fn subs (map leaf_event fs) =
     (None, if filter is_srt fs = [] then subs
            else Some (names_of subs @ map entry_Name (filter is_srt fs)))"
proof (induction fs arbitrary: subs)
  case Nil
  show ?case by simp
next
  case (Cons f fs)
  have f: "\<not> IsDir f" "valid f" using Cons.prems by simp_all
  have r: "\<forall>f \<in> set fs. \<not> IsDir f \<and> valid f" using Cons.prems by simp
  show ?case
  proof (cases "is_srt f")
    case True
    have "run list_fn subs (map leaf_event (f # fs)) =
        run list_fn (append_name subs (entry_Name f)) (map leaf_event fs)"
      using list_fn_file [OF f, of subs] True by (simp add: leaf_event_def)
    then show ?thesis
      using Cons.IH [OF r, of "append_name subs (entry_Name f)"] True
      by (simp add: append_name_def names_of_def split: option.splits)
  next
    case False
    have "run list_fn subs (map leaf_event (f # fs)) = run list_fn subs (map leaf_event fs)"
      using list_fn_file [OF f, of subs] False by (simp add: leaf_event_def)
    then show ?thesis using Cons.IH [OF r, of subs] False by simp
  qed
qed

lemma list_run_locked:
  "\<exists>f \<in> set fs. IsDir f \<Longrightarrow> \<forall>f \<in> set fs. is_leaf f \<and> valid f \<Longrightarrow>
   fst (run list_fn subs (map leaf_event fs)) \<noteq> None"
proof (induction fs arbitrary: subs)
  case Nil
  then show ?case by simp
next
  case (Cons f fs)
  have lf: "is_leaf f" "valid f" using Cons.prems(2) by simp_all
  show ?case
  proof (cases "IsDir f")
    case True
    obtain a st1 where c: "list_fn (entry_Name f) (Some f) (read_error f) subs = (a, st1)"
      by (cases "list_fn (entry_Name f) (Some f) (read_error f) subs")
    have "a \<noteq> None"
      using list_fn_locked [OF True leaf_read_error [OF lf(1) True], of subs] c by simp
    then show ?thesis using c by (auto simp: leaf_event_def)
  next
    case False
    have 1: "run list_fn subs (map leaf_event (f # fs)) =
        run list_fn (if is_srt f then append_name subs (entry_Name f) else subs)
          (map leaf_event fs)"
      using list_fn_file [OF False lf(2), of subs] by (simp add: leaf_event_def)
    have 2: "\<exists>f \<in> set fs. IsDir f" using Cons.prems(1) False by auto
    have 3: "\<forall>f \<in> set fs. is_leaf f \<and> valid f" using Cons.prems(2) by simp
    show ?thesis unfolding 1 by (rule Cons.IH [OF 2 3])
  qed
qed

text \<open>
  The walk of the list handler: the names of the \<open>.srt\<close> entries when every leaf is an
  entry that is not a directory, an error as soon as a leaf is a directory that cannot
  be read.
\<close>

lemma listSubtitles_walk:
  assumes "valid t" and "entry_Name t = subtitlesDir"
  shows "filepath_WalkDir readDir_ok list_fn subtitlesDir (Some t) st
         = run list_fn st (map leaf_event (leaves t))"
proof -
  have b: "path_Base subtitlesDir = entry_Name t"
    using assms(2) by (simp add: path_Base_subtitlesDir)
  show ?thesis
    using run_events_leaves [of list_fn t subtitlesDir st, OF list_fn_dirs list_fn_base assms(1) b]
    by (simp add: filepath_WalkDir_def walkDir_run)
qed

lemma leaves_facts:
  assumes "valid t"
  shows "\<forall>f \<in> set (leaves t). is_leaf f \<and> valid f"
  using leaves_kind leaves_valid [OF assms] by blast

lemma listSubtitles_readable:
  assumes "valid t" and "entry_Name t = subtitlesDir" and "readable t"
  shows "listSubtitles (Some t) w =
     Write_chunk (Json (subtitles_json (map entry_Name (srt_files t))))
       (Header_Set ''Content-Type'' ''application/json'' w)"
proof -
  have "\<forall>f \<in> set (leaves t). \<not> IsDir f \<and> valid f"
    using assms(3) leaves_facts [OF assms(1)] by (simp add: readable_def list_all_iff)
  from list_run_files [OF this, of None]
  have "filepath_WalkDir readDir_ok list_fn subtitlesDir (Some t) None =
      (None, if srt_files t = [] then None else Some (map entry_Name (srt_files t)))"
    by (simp add: listSubtitles_walk [OF assms(1,2)] srt_files_def names_of_def)
  then show ?thesis
    by (simp add: listSubtitles_def subtitles_json_def)
qed

lemma listSubtitles_unreadable:
  assumes "valid t" and "entry_Name t = subtitlesDir" and "\<not> readable t"
  shows "fst (response (listSubtitles (Some t) new_ResponseWriter)) = 500"
proof -
  have "\<exists>f \<in> set (leaves t). IsDir f"
    using assms(3) by (simp add: readable_def list_all_iff)
  from list_run_locked [OF this leaves_facts [OF assms(1)], of None]
  obtain er subs where
    "filepath_WalkDir readDir_ok list_fn subtitlesDir (Some t) None = (Some er, subs)"
    unfolding listSubtitles_walk [OF assms(1,2)]
    by (cases "run list_fn None (map leaf_event (leaves t))") auto
  then show ?thesis
    by (simp add: listSubtitles_def response_defs)
qed

lemma listSubtitles_missing:
  "fst (response (listSubtitles None new_ResponseWriter)) = 500"
  by (simp add: listSubtitles_def filepath_WalkDir_def list_fn_def response_defs)


subsection \<open>The archive handler on the leaves\<close>

lemma zip_fn_dirs: "IsDir f \<Longrightarrow> zip_fn p (Some f) None st = (None, st)"
  by (simp add: zip_fn_def)

lemma zip_fn_base:
  assumes "path_Base p = path_Base q"
  shows "zip_fn p (Some f) r st = zip_fn q (Some f) r st"
  unfolding zip_fn_def assms by (rule refl)

lemma zip_fn_good:
  assumes "can_archive f" and "valid f"
  shows "zip_fn (entry_Name f) (Some f) (read_error f) z =
     (None, if is_srt f then z @ [(entry_Name f, entry_Data f)] else z)"
proof -
  have d: "\<not> IsDir f" using assms(1) by (simp add: can_archive_def)
  have b: "path_Base (entry_Name f) = entry_Name f"
    using assms(2) by (simp add: path_Base_name valid_entry_Name)
  show ?thesis
  proof (cases "path_Ext (entry_Name f) = ''.srt''")
    case False
    then show ?thesis using d by (simp add: zip_fn_def file_read_error is_srt_def)
  next
    case True
    then have c: "zip_Create (entry_Name f) = None" "os_Open f = None" "snd (io_Copy f) = None"
      using assms(1) by (simp_all add: can_archive_def)
    obtain bs where i: "io_Copy f = (bs, None)" using c(3) by (cases "io_Copy f") simp
    show ?thesis
      using d True c i b
      by (simp add: zip_fn_def file_read_error is_srt_def entry_Data_def)
  qed
qed

lemma zip_fn_bad:
  assumes "\<not> can_archive f" and "valid f" and "is_leaf f"
  shows "fst (zip_fn (entry_Name f) (Some f) (read_error f) z) \<noteq> None"
proof (cases "IsDir f")
  case True
  from leaf_read_error [OF assms(3) True] show ?thesis by (auto simp: zip_fn_def)
next
  case False
  have b: "path_Base (entry_Name f) = entry_Name f"
    using assms(2) by (simp add: path_Base_name valid_entry_Name)
  have e: "path_Ext (entry_Name f) = ''.srt''"
    and c: "zip_Create (entry_Name f) \<noteq> None \<or> os_Open f \<noteq> None \<or> snd (io_Copy f) \<noteq> None"
    using assms(1) False by (auto simp: can_archive_def)
  obtain bs r where i: "io_Copy f = (bs, r)" by (cases "io_Copy f")
  show ?thesis
    using False e c i b
    by (auto simp: zip_fn_def file_read_error split: option.splits)
qed

lemma zip_run_good:
  "\<forall>f \<in> set fs. can_archive f \<and> valid f \<Longrightarrow>
   run zip_fn z (map leaf_event fs) =
     (None, z @ map (\<lambda>f. (entry_Name f, entry_Data f)) (filter is_srt fs))"
proof (induction fs arbitrary: z)
  case Nil
  show ?case by simp
next
  case (Cons f fs)
  have f: "can_archive f" "valid f" using Cons.prems by simp_all
  have r: "\<forall>f \<in> set fs. can_archive f \<and> valid f" using Cons.prems by simp
  have "run zip_fn z (map leaf_event (f # fs)) =
      run zip_fn (if is_srt f then z @ [(entry_Name f, entry_Data f)] else z)
        (map leaf_event fs)"
    using zip_fn_good [OF f, of z] by (simp add: leaf_event_def)
  then show ?case
    using Cons.IH [OF r, of "if is_srt f then z @ [(entry_Name f, entry_Data f)] else z"]
    by simp
qed

lemma zip_run_bad:
  "\<exists>f \<in> set fs. \<not> can_archive f \<Longrightarrow> \<forall>f \<in> set fs. is_leaf f \<and> valid f \<Longrightarrow>
   fst (run zip_fn z (map leaf_event fs)) \<noteq> None"
proof (induction fs arbitrary: z)
  case Nil
  then show ?case by simp
next
  case (Cons f fs)
  have lf: "is_leaf f" "valid f" using Cons.prems(2) by simp_all
  show ?case
  proof (cases "can_archive f")
    case False
    obtain a st1 where c: "zip_fn (entry_Name f) (Some f) (read_error f) z = (a, st1)"
      by (cases "zip_fn (entry_Name f) (Some f) (read_error f) z")
    have "a \<noteq> None" using zip_fn_bad [OF False lf(2) lf(1), of z] c by simp
    then show ?thesis using c by (auto simp: leaf_event_def)
  next
    case True
    have 1: "run zip_fn z (map leaf_event (f # fs)) =
        run zip_fn (if is_srt f then z @ [(entry_Name f, entry_Data f)] else z)
          (map leaf_event fs)"
      using zip_fn_good [OF True lf(2), of z] by (simp add: leaf_event_def)
    have 2: "\<exists>f \<in> set fs. \<not> can_archive f" using Cons.prems(1) True by auto
    have 3: "\<forall>f \<in> set fs. is_leaf f \<and> valid f" using Cons.prems(2) by simp
    show ?thesis unfolding 1 by (rule Cons.IH [OF 2 3])
  qed
qed

lemma subtitlesZip_walk:
  assumes "valid t" and "entry_Name t = subtitlesDir"
  shows "filepath_WalkDir readDir_ok zip_fn subtitlesDir (Some t) st
         = run zip_fn st (map leaf_event (leaves t))"
proof -
  have b: "path_Base subtitlesDir = entry_Name t"
    using assms(2) by (simp add: path_Base_subtitlesDir)
  show ?thesis
    using run_events_leaves [of zip_fn t subtitlesDir st, OF zip_fn_dirs zip_fn_base assms(1) b]
    by (simp add: filepath_WalkDir_def walkDir_run)
qed

lemma subtitlesZip_archivable:
  assumes "valid t" and "entry_Name t = subtitlesDir" and "archivable t"
  shows "subtitlesZip (Some t) w =
     Write_chunk (ZipArchive (map (\<lambda>f. (entry_Name f, entry_Data f)) (srt_files t)))
       (Header_Set ''Content-Disposition'' ''attachment; filename=legendas.zip''
          (Header_Set ''Content-Type'' ''application/zip'' w))"
proof -
  have "\<forall>f \<in> set (leaves t). can_archive f \<and> valid f"
    using assms(3) leaves_facts [OF assms(1)] by (simp add: archivable_def list_all_iff)
  from zip_run_good [OF this, of "[]"]
  have "filepath_WalkDir readDir_ok zip_fn subtitlesDir (Some t) [] =
      (None, map (\<lambda>f. (entry_Name f, entry_Data f)) (srt_files t))"
    by (simp add: subtitlesZip_walk [OF assms(1,2)] srt_files_def)
  then show ?thesis
    by (simp add: subtitlesZip_def)
qed

lemma subtitlesZip_not_archivable:
  assumes "valid t" and "entry_Name t = subtitlesDir" and "\<not> archivable t"
  shows "fst (response (subtitlesZip (Some t) new_ResponseWriter)) = 500"
proof -
  have "\<exists>f \<in> set (leaves t). \<not> can_archive f"
    using assms(3) by (simp add: archivable_def list_all_iff)
  from zip_run_bad [OF this leaves_facts [OF assms(1)], of "[]"]
  obtain er z where
    "filepath_WalkDir readDir_ok zip_fn subtitlesDir (Some t) [] = (Some er, z)"
    unfolding subtitlesZip_walk [OF assms(1,2)]
    by (cases "run zip_fn [] (map leaf_event (leaves t))") auto
  then show ?thesis
    by (simp add: subtitlesZip_def response_defs)
qed

lemma subtitlesZip_missing:
  "fst (response (subtitlesZip None new_ResponseWriter)) = 500"
  by (simp add: subtitlesZip_def filepath_WalkDir_def zip_fn_def response_defs)

lemmas walk_defs = filepath_WalkDir_def output_dir_def subtitlesDir_def readDir_ok_def
  readDir_removed_def

lemmas archive_defs = zip_fn_def zip_Create_def os_Open_def io_Copy_def can_archive_def
  entry_Data_def

lemma sample_entries_valid: "valid (Dir subtitlesDir sample_entries)"
  by (simp add: sample_entries_def subtitlesDir_def valid_name_def)

lemma sample_srt_files:
  "srt_files (Dir subtitlesDir sample_entries)
     = [File ''a.srt'' (Readable ''1''), File ''b.srt'' (Readable ''2''),
        File ''x.srt'' (Readable ''3'')]"
  by (simp add: srt_files_def sample_entries_def is_srt_def path_Ext_def)

lemma sample_readable: "readable (Dir subtitlesDir sample_entries)"
  by (simp add: readable_def sample_entries_def)

lemma sample_archivable: "archivable (Dir subtitlesDir sample_entries)"
  by (simp add: archivable_def sample_entries_def archive_defs path_Ext_def)

subsection \<open>The list handler\<close>

text \<open>
  Claim C4: for every state of the output directory, the list endpoint returns a JSON
  array with exactly the base names of the entries located directly in the output
  directory whose extension is \<open>.srt\<close>, and no entries from subdirectories. The walk
  descends into subdirectories: a file \<open>x.srt\<close> in the subdirectory \<open>d\<close> is listed, though no
  entry directly in the output directory has the extension.
\<close>

theorem listSubtitles_nested:
  "direct_srt_names [Dir ''d'' [File ''x.srt'' (Readable ''1'')]] = []
   \<and> response (listSubtitles (output_dir [Dir ''d'' [File ''x.srt'' (Readable ''1'')]])
        new_ResponseWriter)
     = (200, [(''Content-Type'', ''application/json'')],
        [Json (JObject [(''subtitles'', JArray [JString ''x.srt''])])])"
  by (simp add: direct_srt_names_def is_srt_def listSubtitles_def list_fn_def walk_defs
      response_defs append_name_def path_Ext_def path_Base_def)

text \<open>
  Claim C4, amended: for every state of the output directory, when the directory exists
  and every directory the walk reaches can be read, the list endpoint answers 200 with
  the JSON object whose member \<open>subtitles\<close> is the array of the base names of the entries
  that are not directories and have the extension \<open>.srt\<close>, at any depth below the output
  directory, in the order of the walk, and \<open>null\<close> when there is none; in every other
  state (a directory that cannot be read, no output directory) it answers 500. A state
  of the output directory is an entry of that name whose file names are proper.
\<close>

theorem listSubtitles_recursive:
  assumes "valid t" and "entry_Name t = subtitlesDir"
  shows "(readable t \<longrightarrow>
            response (listSubtitles (Some t) new_ResponseWriter)
              = (200, [(''Content-Type'', ''application/json'')],
                 [Json (subtitles_json (map entry_Name (srt_files t)))]))
       \<and> (\<not> readable t \<longrightarrow> fst (response (listSubtitles (Some t) new_ResponseWriter)) = 500)
       \<and> fst (response (listSubtitles None new_ResponseWriter)) = 500"
  using listSubtitles_readable [OF assms, of new_ResponseWriter]
    listSubtitles_unreadable [OF assms] listSubtitles_missing
  by (simp add: response_defs)

theorem listSubtitles_recursive_witness:
  "valid (Dir subtitlesDir sample_entries)
   \<and> entry_Name (Dir subtitlesDir sample_entries) = subtitlesDir
   \<and> readable (Dir subtitlesDir sample_entries)
   \<and> response (listSubtitles (Some (Dir subtitlesDir sample_entries)) new_ResponseWriter)
     = (200, [(''Content-Type'', ''application/json'')],
        [Json (JObject [(''subtitles'',
                         JArray [JString ''a.srt'', JString ''b.srt'', JString ''x.srt''])])])
   \<and> valid (Dir subtitlesDir locked_entries)
   \<and> \<not> readable (Dir subtitlesDir locked_entries)
   \<and> fst (response (listSubtitles (Some (Dir subtitlesDir locked_entries))
              new_ResponseWriter)) = 500"
proof -
  have n: "entry_Name (Dir subtitlesDir sample_entries) = subtitlesDir" by simp
  have n': "entry_Name (Dir subtitlesDir locked_entries) = subtitlesDir" by simp
  have v': "valid (Dir subtitlesDir locked_entries)"
    by (simp add: locked_entries_def subtitlesDir_def valid_name_def)
  have r': "\<not> readable (Dir subtitlesDir locked_entries)"
    by (simp add: readable_def locked_entries_def)
  from listSubtitles_recursive [OF sample_entries_valid n] sample_readable
  have 1: "response (listSubtitles (Some (Dir subtitlesDir sample_entries)) new_ResponseWriter)
     = (200, [(''Content-Type'', ''application/json'')],
        [Json (JObject [(''subtitles'',
                         JArray [JString ''a.srt'', JString ''b.srt'', JString ''x.srt''])])])"
    by (simp add: sample_srt_files subtitles_json_def)
  from listSubtitles_recursive [OF v' n'] r'
  have 2: "fst (response (listSubtitles (Some (Dir subtitlesDir locked_entries))
              new_ResponseWriter)) = 500"
    by simp
  from sample_entries_valid n sample_readable 1 v' r' 2 show ?thesis by simp
qed

subsection \<open>The archive handler\<close>

text \<open>
  Claim C9: for every state of the output directory, the archive endpoint returns a zip
  archive with exactly one entry per \<open>.srt\<close> file in the output directory, each named by
  the base name of the file and holding its bytes, with the zip content type and the
  download file name \<open>legendas.zip\<close>. In the directory below \<open>link.srt\<close> is a symbolic link
  to a directory: copying it fails, and the answer is 500 with the content type of an
  error message, followed by the archive built so far, without \<open>z.srt\<close>.
\<close>

theorem subtitlesZip_unreadable_entry:
  "response (subtitlesZip (output_dir broken_entries) new_ResponseWriter)
     = (500,
        [(''Content-Type'', ''text/plain; charset=utf-8''),
         (''X-Content-Type-Options'', ''nosniff'')],
        [Text ''Failed to compile zip file'',
         ZipArchive [(''a.srt'', ''1''), (''link.srt'', [])]])"
  by (simp add: broken_entries_def subtitlesZip_def archive_defs walk_defs response_defs
      path_Ext_def path_Base_def)

text \<open>
  Claim C9, amended: for every state of the output directory, when the directory exists,
  every directory the walk reaches can be read, and every entry that is not a directory
  and has the extension \<open>.srt\<close> can be opened and read to its end under a name that fits
  a zip header, the archive endpoint answers 200 with a zip archive of exactly one entry
  per such entry, at any depth below the output directory, each named by the base name
  of the entry and holding its bytes, with the zip content type and the download file
  name \<open>legendas.zip\<close>; in every other state it answers 500.
\<close>

theorem subtitlesZip_archive:
  assumes "valid t" and "entry_Name t = subtitlesDir"
  shows "(archivable t \<longrightarrow>
            response (subtitlesZip (Some t) new_ResponseWriter)
              = (200,
                 [(''Content-Type'', ''application/zip''),
                  (''Content-Disposition'', ''attachment; filename=legendas.zip'')],
                 [ZipArchive (map (\<lambda>f. (entry_Name f, entry_Data f)) (srt_files t))]))
       \<and> (\<not> archivable t \<longrightarrow> fst (response (subtitlesZip (Some t) new_ResponseWriter)) = 500)
       \<and> fst (response (subtitlesZip None new_ResponseWriter)) = 500"
  using subtitlesZip_archivable [OF assms, of new_ResponseWriter]
    subtitlesZip_not_archivable [OF assms] subtitlesZip_missing
  by (simp add: response_defs)

theorem subtitlesZip_archive_witness:
  "valid (Dir subtitlesDir sample_entries)
   \<and> entry_Name (Dir subtitlesDir sample_entries) = subtitlesDir
   \<and> archivable (Dir subtitlesDir sample_entries)
   \<and> response (subtitlesZip (Some (Dir subtitlesDir sample_entries)) new_ResponseWriter)
     = (200,
        [(''Content-Type'', ''application/zip''),
         (''Content-Disposition'', ''attachment; filename=legendas.zip'')],
        [ZipArchive [(''a.srt'', ''1''), (''b.srt'', ''2''), (''x.srt'', ''3'')]])
   \<and> valid (Dir subtitlesDir broken_entries)
   \<and> \<not> archivable (Dir subtitlesDir broken_entries)
   \<and> fst (response (subtitlesZip (Some (Dir subtitlesDir broken_entries))
              new_ResponseWriter)) = 500"
proof -
  have n: "entry_Name (Dir subtitlesDir sample_entries) = subtitlesDir" by simp
  have n': "entry_Name (Dir subtitlesDir broken_entries) = subtitlesDir" by simp
  have v': "valid (Dir subtitlesDir broken_entries)"
    by (simp add: broken_entries_def subtitlesDir_def valid_name_def)
  have r': "\<not> archivable (Dir subtitlesDir broken_entries)"
    by (simp add: archivable_def broken_entries_def archive_defs path_Ext_def)
  from subtitlesZip_archive [OF sample_entries_valid n] sample_archivable
  have 1: "response (subtitlesZip (Some (Dir subtitlesDir sample_entries)) new_ResponseWriter)
     = (200,
        [(''Content-Type'', ''application/zip''),
         (''Content-Disposition'', ''attachment; filename=legendas.zip'')],
        [ZipArchive [(''a.srt'', ''1''), (''b.srt'', ''2''), (''x.srt'', ''3'')]])"
    by (simp add: sample_srt_files archive_defs)
  from subtitlesZip_archive [OF v' n'] r'
  have 2: "fst (response (subtitlesZip (Some (Dir subtitlesDir broken_entries))
              new_ResponseWriter)) = 500"
    by simp
  from sample_entries_valid n sample_archivable 1 v' r' 2 show ?thesis by simp
qed

subsection \<open>The fetch handler\<close>

lemmas fetch_defs = subtitleFile_def fetch_fn_def http_ServeFile_def localRedirect_def
  containsDotDot_def strings_FieldsFunc_def isSlashRune_def get_by_name_def suffix_to_prefix

text \<open>
  Claim C7: for every name that matches no entry in the output directory, the fetch
  handler answers 200 with an empty body and sets no subtitle headers. The walk calls its
  function for the root first, whose name is \<open>subtitles\<close>, and the function compares the
  name without asking whether the entry is a directory: for that name, with an empty
  output directory, the handler sets both subtitle headers and serves the directory,
  which \<open>http.ServeFile\<close> answers with a redirect, status 301.
\<close>

theorem subtitleFile_root_name:
  "''subtitles'' \<notin> set (names_in [])
   \<and> response (subtitleFile library (get_by_name ''subtitles'') (output_dir [])
        new_ResponseWriter)
     = (301,
        [(''Content-Type'', ''application/x-subrip''),
         (''Content-Disposition'', ''attachment; filename=subtitles''),
         (''Location'', ''subtitles/'')],
        [])"
  by (simp add: names_in_def fetch_defs walk_defs response_defs path_Base_def)

subsection \<open>The delete handler\<close>

lemmas delete_defs = deleteSubtitle_def delete_fn_def os_Remove_entry_def after_removal_def

text \<open>
  Claim C8: the delete handler removes exactly the entries of the output directory whose
  base name equals the name, so that the subtitle no longer appears in the list, and
  leaves every other file unchanged; when no entry matches it completes without error
  and the directory is unchanged. The walk compares the name with the root as well,
  without asking whether the entry is a directory: for the name \<open>subtitles\<close>, which no
  entry of the directory bears, the handler calls \<open>os.Remove\<close> on the output directory
  itself. When the directory holds a file the removal fails and the answer is 500; when
  it is empty the output directory is removed, reading it then fails, and the answer is
  500 as well.
\<close>

theorem deleteSubtitle_root_name:
  "''subtitles'' \<notin> set (names_in [File ''a.srt'' (Readable ''1'')])
   \<and> deleteSubtitle ''subtitles'' (output_dir [File ''a.srt'' (Readable ''1'')])
       new_ResponseWriter
     = (\<lparr>Header = [(''Content-Type'', ''text/plain; charset=utf-8''),
                    (''X-Content-Type-Options'', ''nosniff'')],
         wroteHeader = Some (500, [(''Content-Type'', ''text/plain; charset=utf-8''),
                                    (''X-Content-Type-Options'', ''nosniff'')]),
         body = [Text ''Failed to compile zip file'']\<rparr>,
        output_dir [File ''a.srt'' (Readable ''1'')])
   \<and> deleteSubtitle ''subtitles'' (output_dir []) new_ResponseWriter
     = (\<lparr>Header = [(''Content-Type'', ''text/plain; charset=utf-8''),
                    (''X-Content-Type-Options'', ''nosniff'')],
         wroteHeader = Some (500, [(''Content-Type'', ''text/plain; charset=utf-8''),
                                    (''X-Content-Type-Options'', ''nosniff'')]),
         body = [Text ''Failed to compile zip file'']\<rparr>,
        None)"
  by (simp add: names_in_def delete_defs walk_defs response_defs)


subsection \<open>The order of the walk\<close>

lemma walk_paths_entries: "map snd (walk p t) = map snd (walk_paths t)"
proof (induction t arbitrary: p)
  case (File n c)
  show ?case by simp
next
  case (LockedDir n err emp)
  show ?case by simp
next
  case (Dir n es)
  have "\<And>d. d \<in> set (sort_key entry_Name es) \<Longrightarrow>
      map snd (walk (p @ ''/'' @ entry_Name d) d) = map snd (walk_paths d)"
    using Dir.IH by simp
  then have "map (\<lambda>d. map snd (walk (p @ ''/'' @ entry_Name d) d)) (sort_key entry_Name es)
      = map (\<lambda>d. map snd (walk_paths d)) (sort_key entry_Name es)"
    by (rule map_cong [OF refl])
  then have "concat (map (\<lambda>d. map snd (walk (p @ ''/'' @ entry_Name d) d))
        (sort_key entry_Name es))
      = concat (map (\<lambda>d. map snd (walk_paths d)) (sort_key entry_Name es))"
    by (rule arg_cong)
  then show ?case
    by (simp add: map_concat comp_def case_prod_unfold)
qed

lemma events_walk:
  "map (\<lambda>ev. (fst ev, fst (snd ev))) (filter (\<lambda>ev. snd (snd ev) = None) (events p t))
     = walk p t"
proof (induction t arbitrary: p)
  case (File n c)
  show ?case by simp
next
  case (LockedDir n err emp)
  show ?case by simp
next
  case (Dir n es)
  let ?F = "\<lambda>evs. map (\<lambda>ev. (fst ev, fst (snd ev))) (filter (\<lambda>ev. snd (snd ev) = None) evs)"
  have "\<And>d. d \<in> set (sort_key entry_Name es) \<Longrightarrow>
      ?F (events (p @ ''/'' @ entry_Name d) d) = walk (p @ ''/'' @ entry_Name d) d"
    using Dir.IH by simp
  then have "map (\<lambda>d. ?F (events (p @ ''/'' @ entry_Name d) d)) (sort_key entry_Name es)
      = map (\<lambda>d. walk (p @ ''/'' @ entry_Name d) d) (sort_key entry_Name es)"
    by (rule map_cong [OF refl])
  then have "concat (map (\<lambda>d. ?F (events (p @ ''/'' @ entry_Name d) d)) (sort_key entry_Name es))
      = concat (map (\<lambda>d. walk (p @ ''/'' @ entry_Name d) d) (sort_key entry_Name es))"
    by (rule arg_cong)
  then show ?case
    by (simp add: map_concat filter_concat comp_def)
qed

lemma walk_paths_head:
  "(q, f) \<in> set (walk_paths t) \<Longrightarrow> \<exists>r. q = entry_Name t # r"
  by (cases t) auto

lemma sorted_blocks:
  assumes "sorted_wrt (<) (map entry_Name ds)"
    and "\<And>d. d \<in> set ds \<Longrightarrow> sorted_wrt (<) (B d)"
    and "\<And>d q. d \<in> set ds \<Longrightarrow> q \<in> set (B d) \<Longrightarrow> \<exists>r. q = entry_Name d # r"
  shows "sorted_wrt (<) (concat (map B ds))"
  using assms
proof (induction ds)
  case Nil
  show ?case by simp
next
  case (Cons d ds)
  have s: "sorted_wrt (<) (B d)" using Cons.prems(2) by simp
  have r: "sorted_wrt (<) (concat (map B ds))"
    using Cons.IH Cons.prems by simp
  have c: "\<forall>x \<in> set (B d). \<forall>y \<in> set (concat (map B ds)). x < y"
  proof (intro ballI)
    fix x y assume x: "x \<in> set (B d)" and y: "y \<in> set (concat (map B ds))"
    obtain rx where rx: "x = entry_Name d # rx" using Cons.prems(3) [of d x] x by auto
    obtain d' where d': "d' \<in> set ds" and yd: "y \<in> set (B d')" using y by auto
    obtain ry where ry: "y = entry_Name d' # ry" using Cons.prems(3) [of d' y] d' yd by auto
    have "entry_Name d < entry_Name d'" using Cons.prems(1) d' by simp
    then show "x < y" by (simp add: rx ry)
  qed
  show ?case using s r c by (simp add: sorted_wrt_append)
qed

lemma sorted_names:
  "distinct (map entry_Name es) \<Longrightarrow> sorted_wrt (<) (map entry_Name (sort_key entry_Name es))"
proof -
  assume d: "distinct (map entry_Name es)"
  have "distinct (map entry_Name (sort_key entry_Name es))"
    using d by (simp add: distinct_map)
  then show ?thesis by (simp add: strict_sorted_iff)
qed

lemma walk_paths_sorted: "valid t \<Longrightarrow> sorted_wrt (<) (map fst (walk_paths t))"
proof (induction t)
  case (File n c)
  show ?case by simp
next
  case (LockedDir n err emp)
  show ?case by simp
next
  case (Dir n es)
  let ?ds = "sort_key entry_Name es"
  let ?B = "\<lambda>d. map fst (walk_paths d)"
  let ?X = "concat (map ?B ?ds)"
  have names: "sorted_wrt (<) (map entry_Name ?ds)"
    using Dir.prems by (simp add: sorted_names)
  have each: "\<And>d. d \<in> set ?ds \<Longrightarrow> sorted_wrt (<) (?B d)"
    using Dir.IH Dir.prems by (simp add: list_all_iff)
  have heads: "\<And>d q. d \<in> set ?ds \<Longrightarrow> q \<in> set (?B d) \<Longrightarrow> \<exists>r. q = entry_Name d # r"
    using walk_paths_head by fastforce
  have X: "sorted_wrt (<) ?X"
    by (rule sorted_blocks [OF names each heads])
  have ne: "\<forall>x \<in> set ?X. \<exists>a r. x = a # r"
    using heads by fastforce
  have m: "map fst (walk_paths (Dir n es)) = [n] # map ((#) n) ?X"
    by (simp add: map_concat comp_def case_prod_unfold)
  have "sorted_wrt (<) (map ((#) n) ?X)"
    using X by (simp add: sorted_wrt_map)
  moreover have "\<forall>y \<in> set (map ((#) n) ?X). [n] < y"
  proof
    fix y assume "y \<in> set (map ((#) n) ?X)"
    then obtain x where x: "x \<in> set ?X" and y: "y = n # x" by auto
    from ne x obtain a r where "x = a # r" by blast
    then show "[n] < y" by (simp add: y)
  qed
  ultimately show ?case unfolding m by simp
qed

lemma leaf_paths_sorted: "valid t \<Longrightarrow> sorted_wrt (<) (map fst (leaf_paths t))"
proof -
  assume "valid t"
  then have "sorted_wrt (\<lambda>x y. fst x < fst y) (walk_paths t)"
    using walk_paths_sorted [of t] by (simp add: sorted_wrt_map)
  then have "sorted_wrt (\<lambda>x y. fst x < fst y) (filter (\<lambda>qf. is_leaf (snd qf)) (walk_paths t))"
    by (rule sorted_wrt_filter)
  then show ?thesis by (simp add: leaf_paths_def sorted_wrt_map)
qed

lemma leaves_leaf_paths: "leaves t = map snd (leaf_paths t)"
proof (induction t)
  case (File n c)
  show ?case by (simp add: leaf_paths_def)
next
  case (LockedDir n err emp)
  show ?case by (simp add: leaf_paths_def)
next
  case (Dir n es)
  have "\<And>d. d \<in> set (sort_key entry_Name es) \<Longrightarrow>
      leaves d = map snd (filter (\<lambda>qf. is_leaf (snd qf)) (walk_paths d))"
    using Dir.IH by (simp add: leaf_paths_def)
  then have "map leaves (sort_key entry_Name es)
      = map (\<lambda>d. map snd (filter (\<lambda>qf. is_leaf (snd qf)) (walk_paths d)))
          (sort_key entry_Name es)"
    by (rule map_cong [OF refl])
  then have "concat (map leaves (sort_key entry_Name es))
      = concat (map (\<lambda>d. map snd (filter (\<lambda>qf. is_leaf (snd qf)) (walk_paths d)))
          (sort_key entry_Name es))"
    by (rule arg_cong)
  then show ?case
    by (simp add: leaf_paths_def filter_map map_concat filter_concat comp_def case_prod_unfold)
qed

lemma walk_paths_Dir_mem:
  "((q, f) \<in> set (walk_paths (Dir n es))) =
     (q = [n] \<and> f = Dir n es \<or> (\<exists>d \<in> set es. \<exists>r. q = n # r \<and> (r, f) \<in> set (walk_paths d)))"
  by force

lemma file_paths_Dir_mem:
  "((q, f) \<in> set (file_paths (Dir n es))) =
     (\<exists>d \<in> set es. \<exists>r. q = n # r \<and> (r, f) \<in> set (file_paths d))"
  by force

lemma walk_paths_leaf_iff:
  "((q, f) \<in> set (walk_paths t) \<and> is_leaf f) = ((q, f) \<in> set (file_paths t))"
proof (induction t arbitrary: q)
  case (File n c)
  show ?case by auto
next
  case (LockedDir n err emp)
  show ?case by auto
next
  case (Dir n es)
  have "((q, f) \<in> set (walk_paths (Dir n es)) \<and> is_leaf f)
      = (\<exists>d \<in> set es. \<exists>r. q = n # r \<and> ((r, f) \<in> set (walk_paths d) \<and> is_leaf f))"
    unfolding walk_paths_Dir_mem by auto
  also have "\<dots> = (\<exists>d \<in> set es. \<exists>r. q = n # r \<and> (r, f) \<in> set (file_paths d))"
    using Dir.IH by blast
  also have "\<dots> = ((q, f) \<in> set (file_paths (Dir n es)))"
    unfolding file_paths_Dir_mem ..
  finally show ?case .
qed

lemma leaf_paths_set: "set (leaf_paths t) = set (file_paths t)"
proof (intro set_eqI)
  fix x :: "string list \<times> entry"
  obtain q f where x: "x = (q, f)" by (cases x)
  show "(x \<in> set (leaf_paths t)) = (x \<in> set (file_paths t))"
    using walk_paths_leaf_iff [of q f t] by (simp add: x leaf_paths_def)
qed

lemma sorted_pairs_equal:
  fixes xs ys :: "('a::linorder \<times> 'b) list"
  assumes "sorted_wrt (<) (map fst xs)" and "sorted_wrt (<) (map fst ys)"
    and "set xs = set ys"
  shows "xs = ys"
proof -
  have "set (map fst xs) = set (map fst ys)" using assms(3) by simp
  then have m: "map fst xs = map fst ys"
    using strict_sorted_equal [OF assms(1) assms(2)] by simp
  have "distinct (map fst xs)" using assms(1) by (simp add: strict_sorted_iff)
  then have "inj_on fst (set xs)" by (simp add: distinct_map)
  then have "inj_on fst (set xs \<union> set ys)" using assms(3) by simp
  from inj_on_map_eq_map [OF this] m show ?thesis by simp
qed

lemma leaves_determined:
  assumes "valid t" and "valid t'" and "set (file_paths t) = set (file_paths t')"
  shows "leaves t = leaves t'"
proof -
  have "set (leaf_paths t) = set (leaf_paths t')"
    using assms(3) by (simp add: leaf_paths_set)
  from sorted_pairs_equal [OF leaf_paths_sorted [OF assms(1)] leaf_paths_sorted [OF assms(2)] this]
  show ?thesis by (simp add: leaves_leaf_paths)
qed

text \<open>
  Claim C10: for a fixed set of files in the output directory, two runs of the list
  endpoint return the same array in the same order, because the walk visits the entries
  in lexicographic path order. Two directories that hold the same files, in whatever
  order the operating system returns their entries, get the same answer; the walk visits
  the entries in the order of \<open>walk_paths\<close>, whose paths, as lists of names, increase
  strictly in the lexicographic order.
\<close>

theorem listSubtitles_deterministic:
  assumes "valid (Dir subtitlesDir es)" and "valid (Dir subtitlesDir es')"
    and "file_set es = file_set es'"
  shows "listSubtitles (output_dir es) w = listSubtitles (output_dir es') w
     \<and> map snd (walk subtitlesDir (Dir subtitlesDir es))
         = map snd (walk_paths (Dir subtitlesDir es))
     \<and> sorted_wrt (<) (map fst (walk_paths (Dir subtitlesDir es)))"
proof -
  have n: "entry_Name (Dir subtitlesDir es) = subtitlesDir"
    "entry_Name (Dir subtitlesDir es') = subtitlesDir" by simp_all
  have "leaves (Dir subtitlesDir es) = leaves (Dir subtitlesDir es')"
    using assms by (intro leaves_determined) (simp_all add: file_set_def)
  then have "listSubtitles (output_dir es) w = listSubtitles (output_dir es') w"
    by (simp only: listSubtitles_def output_dir_def
        listSubtitles_walk [OF assms(1) n(1)] listSubtitles_walk [OF assms(2) n(2)])
  then show ?thesis
    using walk_paths_entries [of subtitlesDir "Dir subtitlesDir es"]
      walk_paths_sorted [OF assms(1)]
    by (intro conjI)
qed

lemma shuffled_entries_valid: "valid (Dir subtitlesDir shuffled_entries)"
  by (simp add: shuffled_entries_def subtitlesDir_def valid_name_def)

theorem listSubtitles_deterministic_witness:
  "valid (Dir subtitlesDir sample_entries) \<and> valid (Dir subtitlesDir shuffled_entries)
   \<and> file_set sample_entries = file_set shuffled_entries
   \<and> sample_entries \<noteq> shuffled_entries
   \<and> listSubtitles (output_dir sample_entries) new_ResponseWriter
       = listSubtitles (output_dir shuffled_entries) new_ResponseWriter"
proof -
  have f: "file_set sample_entries = file_set shuffled_entries"
    by (auto simp: file_set_def sample_entries_def shuffled_entries_def)
  have n: "sample_entries \<noteq> shuffled_entries"
    by (simp add: sample_entries_def shuffled_entries_def)
  from listSubtitles_deterministic [OF sample_entries_valid shuffled_entries_valid f,
      of new_ResponseWriter]
  have "listSubtitles (output_dir sample_entries) new_ResponseWriter
      = listSubtitles (output_dir shuffled_entries) new_ResponseWriter"
    by (rule conjunct1)
  with sample_entries_valid shuffled_entries_valid f n show ?thesis by blast
qed


subsection \<open>What the handlers do for other names and directories\<close>

text \<open>
  In a directory without subdirectories the entries the list handler names are those
  located directly in it.
\<close>

lemma leaves_files: "list_all (\<lambda>d. \<not> IsDir d) ds \<Longrightarrow> concat (map leaves ds) = ds"
proof (induction ds)
  case Nil
  show ?case by simp
next
  case (Cons d ds)
  then show ?case by (cases d) simp_all
qed

lemma srt_files_flat:
  assumes "list_all (\<lambda>d. \<not> IsDir d) es"
  shows "map entry_Name (srt_files (Dir n es)) = direct_srt_names es"
proof -
  have "list_all (\<lambda>d. \<not> IsDir d) (sort_key entry_Name es)"
    using assms by (simp add: list_all_iff)
  then have "leaves (Dir n es) = sort_key entry_Name es"
    by (simp add: leaves_files)
  then show ?thesis by (simp add: srt_files_def direct_srt_names_def)
qed

text \<open>
  In a tree that can be read, a name that no entry bears, the root included, leaves the
  response of the fetch handler untouched: status 200, no header, no body. A name that
  an entry below the root bears is served.
\<close>

lemma run_unchanged:
  "(\<And>p f er. (p, f, er) \<in> set evs \<Longrightarrow> fn p (Some f) er st = (None, st)) \<Longrightarrow>
   run fn st evs = (None, st)"
proof (induction evs)
  case Nil
  show ?case by simp
next
  case (Cons ev evs)
  obtain p f er where ev: "ev = (p, f, er)" by (cases ev)
  have 1: "fn p (Some f) er st = (None, st)" using Cons.prems [of p f er] ev by simp
  have 2: "run fn st evs = (None, st)" using Cons.IH Cons.prems by simp
  show ?case using 1 2 ev by simp
qed

lemma events_names:
  "(q, f, er) \<in> set (events p t) \<Longrightarrow> entry_Name f \<in> set (all_names t)"
proof (induction t arbitrary: p)
  case (File n c)
  then show ?case by auto
next
  case (LockedDir n err emp)
  then show ?case by auto
next
  case (Dir n es)
  show ?case
  proof (cases "(q, f, er) = (p, Dir n es, None)")
    case True
    then show ?thesis by auto
  next
    case False
    then obtain d where d: "d \<in> set es"
      and m: "(q, f, er) \<in> set (events (p @ ''/'' @ entry_Name d) d)"
      using Dir.prems by auto
    from Dir.IH [OF d m] d show ?thesis by auto
  qed
qed

lemma readable_Dir: "readable (Dir n es) = (\<forall>d \<in> set es. readable d)"
  by (auto simp: readable_def list_all_iff)

lemma events_readable:
  "readable t \<Longrightarrow> (q, f, er) \<in> set (events p t) \<Longrightarrow> er = None"
proof (induction t arbitrary: p)
  case (File n c)
  then show ?case by auto
next
  case (LockedDir n err emp)
  then show ?case by (simp add: readable_def)
next
  case (Dir n es)
  show ?case
  proof (cases "(q, f, er) = (p, Dir n es, None)")
    case True
    then show ?thesis by auto
  next
    case False
    then obtain d where d: "d \<in> set es"
      and m: "(q, f, er) \<in> set (events (p @ ''/'' @ entry_Name d) d)"
      using Dir.prems(2) by auto
    have "readable d" using Dir.prems(1) d by (simp add: readable_Dir)
    from Dir.IH [OF d this m] show ?thesis .
  qed
qed

lemma subtitleFile_no_match:
  assumes "readable t" and "URLParam_name r \<notin> set (all_names t)"
  shows "subtitleFile library r (Some t) w = w"
proof -
  have "run (fetch_fn library r) w (events subtitlesDir t) = (None, w)"
  proof (rule run_unchanged)
    fix p f er assume m: "(p, f, er) \<in> set (events subtitlesDir t)"
    have e: "er = None" using events_readable [OF assms(1) m] .
    have "entry_Name f \<noteq> URLParam_name r" using events_names [OF m] assms(2) by auto
    then show "fetch_fn library r p (Some f) er w = (None, w)"
      by (simp add: fetch_fn_def e)
  qed
  then show ?thesis
    by (simp add: subtitleFile_def filepath_WalkDir_def walkDir_run)
qed

lemma subtitleFile_not_found:
  assumes "readable (Dir subtitlesDir es)" and "subName \<noteq> subtitlesDir"
    and "subName \<notin> set (names_in es)"
  shows "response (subtitleFile library (get_by_name subName) (output_dir es) new_ResponseWriter)
         = (200, [], [])"
proof -
  have "URLParam_name (get_by_name subName) \<notin> set (all_names (Dir subtitlesDir es))"
    using assms(2,3) by (simp add: names_in_def get_by_name_def)
  from subtitleFile_no_match [OF assms(1) this] show ?thesis
    by (simp add: output_dir_def response_def new_ResponseWriter_def)
qed

lemma subtitleFile_found:
  "response (subtitleFile serve_bytes (get_by_name ''x.srt'') (output_dir sample_entries)
       new_ResponseWriter)
     = (200,
        [(''Content-Type'', ''application/x-subrip''),
         (''Content-Disposition'', ''attachment; filename=x.srt'')],
        [ServedFile ''subtitles/d/x.srt''])"
  by (simp add: sample_entries_def fetch_defs serve_bytes_def walk_defs response_defs)

text \<open>
  The delete handler removes the entry of the name at any depth; a subdirectory that
  bears the name and is not empty is not removed, and the answer is 500.
\<close>

lemma deleteSubtitle_file:
  "deleteSubtitle ''x.srt'' (output_dir sample_entries) new_ResponseWriter
     = (new_ResponseWriter,
        output_dir [File ''b.srt'' (Readable ''2''), Dir ''d'' [],
                    File ''a.srt'' (Readable ''1''), File ''notes.txt'' (Readable ''4'')])"
  by (simp add: sample_entries_def delete_defs walk_defs)

lemma deleteSubtitle_directory_name:
  "deleteSubtitle ''d'' (output_dir [Dir ''d'' [File ''x.srt'' (Readable ''3'')]])
       new_ResponseWriter = (w, tree) \<Longrightarrow>
   fst (response w) = 500 \<and> tree = output_dir [Dir ''d'' [File ''x.srt'' (Readable ''3'')]]"
  by (auto simp add: delete_defs walk_defs response_defs)

end
